theory Spec2Isabelle
  imports
    Main
    "HOL-Library.AList"
    "HOL-Library.Sublist"
    "HOL-Library.Char_ord"
    "HOL-Library.List_Lexorder"
begin

section \<open>Python values\<close>

text \<open>
  The plugin keeps its whole state in dictionaries whose records are \<^verbatim>\<open>Dict[str, Any]\<close>:
  created by the message handler and the dispatcher with three fixed keys, or read back
  from the JSON snapshot with whatever keys and values the file holds. A record is an
  association list from keys to Python values (insertion ordered, as a Python dict is);
  \<open>map_of\<close> is \<^verbatim>\<open>d.get(k)\<close>, \<open>AList.update\<close> is \<^verbatim>\<open>d[k] = v\<close> (in place when the
  key exists, appended otherwise) and \<open>AList.delete\<close> is \<^verbatim>\<open>d.pop(k, None)\<close>.

  A \<^verbatim>\<open>datetime\<close> is the naive datetime that \<^verbatim>\<open>datetime.datetime.now()\<close> returns: its
  seven calendar fields. UTC offsets are not modelled (the plugin never creates an aware
  datetime), and JSON numbers are integers.
\<close>

record datetime =
  year :: nat
  month :: nat
  day :: nat
  hour :: nat
  minute :: nat
  second :: nat
  microsecond :: nat

datatype pyval =
    PNone
  | PBool bool
  | PInt int
  | PStr string
  | PDatetime datetime

type_synonym pydict = "(string \<times> pyval) list"

datatype exn = TypeError | KeyError | SchedulerError | LookupError

text \<open>Python truthiness, as \<^verbatim>\<open>if not last_active\<close> reads it.\<close>

fun truthy :: "pyval \<Rightarrow> bool" where
  "truthy PNone = False"
| "truthy (PBool b) = b"
| "truthy (PInt n) = (n \<noteq> 0)"
| "truthy (PStr s) = (s \<noteq> [])"
| "truthy (PDatetime d) = True"

text \<open>\<^verbatim>\<open>needle in haystack\<close> on strings: the needle occurs as a contiguous run.\<close>

fun str_contains :: "string \<Rightarrow> string \<Rightarrow> bool" where
  "str_contains needle [] = (needle = [])"
| "str_contains needle (c # cs) = (prefix needle (c # cs) \<or> str_contains needle cs)"

section \<open>The datetime library functions the plugin calls\<close>

text \<open>
  The constructor of \<^verbatim>\<open>datetime\<close> raises ValueError outside these ranges, so every
  datetime object of the running program satisfies \<open>valid_datetime\<close>.
\<close>

definition is_leap :: "nat \<Rightarrow> bool" where
  "is_leap y = (y mod 4 = 0 \<and> (y mod 100 \<noteq> 0 \<or> y mod 400 = 0))"

definition days_in_month :: "nat \<Rightarrow> nat \<Rightarrow> nat" where
  "days_in_month y m =
     (if m = 2 then (if is_leap y then 29 else 28)
      else if m = 4 \<or> m = 6 \<or> m = 9 \<or> m = 11 then 30 else 31)"

definition valid_datetime :: "datetime \<Rightarrow> bool" where
  "valid_datetime d =
     (1 \<le> year d \<and> year d \<le> 9999 \<and> 1 \<le> month d \<and> month d \<le> 12 \<and>
      1 \<le> day d \<and> day d \<le> days_in_month (year d) (month d) \<and>
      hour d < 24 \<and> minute d < 60 \<and> second d < 60 \<and> microsecond d < 1000000)"

text \<open>
  \<^verbatim>\<open>now - last_active\<close> goes through the proleptic Gregorian ordinal of each date;
  \<open>to_microseconds\<close> is the position of a datetime on the time line in microseconds.
\<close>

definition days_before_year :: "nat \<Rightarrow> int" where
  "days_before_year y =
     (let y1 = int y - 1 in y1 * 365 + y1 div 4 - y1 div 100 + y1 div 400)"

definition days_before_month :: "nat \<Rightarrow> nat \<Rightarrow> int" where
  "days_before_month y m = (\<Sum>k \<leftarrow> [1..<m]. int (days_in_month y k))"

definition toordinal :: "datetime \<Rightarrow> int" where
  "toordinal d = days_before_year (year d) + days_before_month (year d) (month d) + int (day d)"

definition to_microseconds :: "datetime \<Rightarrow> int" where
  "to_microseconds d =
     (((toordinal d * 24 + int (hour d)) * 60 + int (minute d)) * 60 + int (second d)) * 1000000
       + int (microsecond d)"

text \<open>
  \<^verbatim>\<open>(now - last_active).total_seconds() >= threshold\<close> for an integer threshold in seconds.
  The source compares the float quotient; the model compares the exact microsecond
  difference, which agrees for every threshold below some 270 years.
\<close>

definition inactive_at_least :: "datetime \<Rightarrow> datetime \<Rightarrow> int \<Rightarrow> bool" where
  "inactive_at_least now last_active threshold =
     (threshold * 1000000 \<le> to_microseconds now - to_microseconds last_active)"

subsection \<open>isoformat\<close>

definition digit_char :: "nat \<Rightarrow> char" where
  "digit_char n = char_of (48 + n)"

definition digit_val :: "char \<Rightarrow> nat option" where
  "digit_val c =
     (let n = (of_char c :: nat) in if 48 \<le> n \<and> n \<le> 57 then Some (n - 48) else None)"

text \<open>\<^verbatim>\<open>"%d" % n\<close> and \<^verbatim>\<open>"%0kd" % n\<close> for a natural number.\<close>

fun str_nat :: "nat \<Rightarrow> string" where
  "str_nat n = (if n < 10 then [digit_char n] else str_nat (n div 10) @ [digit_char (n mod 10)])"

definition zfill :: "nat \<Rightarrow> nat \<Rightarrow> string" where
  "zfill k n = replicate (k - length (str_nat n)) (CHR ''0'') @ str_nat n"

text \<open>
  \<^verbatim>\<open>datetime.isoformat()\<close>: \<^verbatim>\<open>YYYY-MM-DDTHH:MM:SS\<close>, followed by \<^verbatim>\<open>.ffffff\<close> when the
  microsecond field is not zero.
\<close>

definition isoformat :: "datetime \<Rightarrow> string" where
  "isoformat d =
     zfill 4 (year d) @ ''-'' @ zfill 2 (month d) @ ''-'' @ zfill 2 (day d) @ ''T'' @
     zfill 2 (hour d) @ '':'' @ zfill 2 (minute d) @ '':'' @ zfill 2 (second d) @
     (if microsecond d = 0 then [] else ''.'' @ zfill 6 (microsecond d))"

subsection \<open>fromisoformat\<close>

text \<open>
  \<^verbatim>\<open>datetime.fromisoformat\<close> as Python 3.7 to 3.10 define it for naive datetimes:
  \<^verbatim>\<open>YYYY-MM-DD[*HH[:MM[:SS[.fff[fff]]]]]\<close> with any single character as the separator,
  ASCII digits only, and the constructor's range checks. \<open>None\<close> is ValueError. A string
  with a UTC offset would give an aware datetime, which this model does not have, and
  is a parse failure here.
\<close>

fun parse_digits_from :: "nat \<Rightarrow> string \<Rightarrow> nat option" where
  "parse_digits_from acc [] = Some acc"
| "parse_digits_from acc (c # cs) =
     (case digit_val c of None \<Rightarrow> None | Some v \<Rightarrow> parse_digits_from (10 * acc + v) cs)"

definition parse_digits :: "string \<Rightarrow> nat option" where
  "parse_digits s = (if s = [] then None else parse_digits_from 0 s)"

definition parse_isoformat_date :: "string \<Rightarrow> (nat \<times> nat \<times> nat) option" where
  "parse_isoformat_date s =
     (if length s \<noteq> 10 \<or> s ! 4 \<noteq> CHR ''-'' \<or> s ! 7 \<noteq> CHR ''-'' then None
      else Option.bind (parse_digits (take 4 s)) (\<lambda>y.
           Option.bind (parse_digits (take 2 (drop 5 s))) (\<lambda>m.
           Option.bind (parse_digits (drop 8 s)) (\<lambda>d. Some (y, m, d)))))"

text \<open>The time part \<^verbatim>\<open>HH[:MM[:SS[.fff[fff]]]]\<close>, by the only lengths that parse.\<close>

definition parse_hh :: "string \<Rightarrow> nat option" where
  "parse_hh t = parse_digits (take 2 t)"

definition parse_mm :: "string \<Rightarrow> nat option" where
  "parse_mm t = (if t ! 2 \<noteq> CHR '':'' then None else parse_digits (take 2 (drop 3 t)))"

definition parse_ss :: "string \<Rightarrow> nat option" where
  "parse_ss t = (if t ! 5 \<noteq> CHR '':'' then None else parse_digits (take 2 (drop 6 t)))"

definition parse_ff :: "string \<Rightarrow> nat option" where
  "parse_ff t =
     (if t ! 8 \<noteq> CHR ''.'' then None
      else Option.bind (parse_digits (drop 9 t))
             (\<lambda>f. Some (if length t = 12 then f * 1000 else f)))"

definition parse_isoformat_time :: "string \<Rightarrow> (nat \<times> nat \<times> nat \<times> nat) option" where
  "parse_isoformat_time t =
     (let n = length t in
      if n = 2 then
        Option.bind (parse_hh t) (\<lambda>h. Some (h, 0, 0, 0))
      else if n = 5 then
        Option.bind (parse_hh t) (\<lambda>h.
        Option.bind (parse_mm t) (\<lambda>m. Some (h, m, 0, 0)))
      else if n = 8 then
        Option.bind (parse_hh t) (\<lambda>h.
        Option.bind (parse_mm t) (\<lambda>m.
        Option.bind (parse_ss t) (\<lambda>s. Some (h, m, s, 0))))
      else if n = 12 \<or> n = 15 then
        Option.bind (parse_hh t) (\<lambda>h.
        Option.bind (parse_mm t) (\<lambda>m.
        Option.bind (parse_ss t) (\<lambda>s.
        Option.bind (parse_ff t) (\<lambda>f. Some (h, m, s, f)))))
      else None)"

fun make_datetime :: "nat \<times> nat \<times> nat \<Rightarrow> nat \<times> nat \<times> nat \<times> nat \<Rightarrow> datetime option" where
  "make_datetime (y, mo, d) (h, mi, s, us) =
     (let r = \<lparr>year = y, month = mo, day = d, hour = h, minute = mi, second = s,
               microsecond = us\<rparr>
      in if valid_datetime r then Some r else None)"

definition fromisoformat :: "string \<Rightarrow> datetime option" where
  "fromisoformat s =
     Option.bind (parse_isoformat_date (take 10 s)) (\<lambda>dc.
       let tstr = drop 11 s in
       if tstr = [] then make_datetime dc (0, 0, 0, 0)
       else Option.bind (parse_isoformat_time tstr) (make_datetime dc))"

section \<open>Configuration and state of the dialogue core\<close>

text \<open>
  The settings \<^verbatim>\<open>GroupInitiativeDialogueCore.__init__\<close> reads from the configuration, and
  the five dictionaries and sets it keeps. \<open>initial_state\<close> is the state the constructor
  builds.
\<close>

record config =
  inactive_time_seconds :: int
  max_response_delay_seconds :: int
  time_limit_enabled :: bool
  activity_start_hour :: int
  activity_end_hour :: int
  max_consecutive_messages :: int
  whitelist_enabled :: bool
  whitelist_groups :: "string set"

record core_state =
  consecutive_message_count :: "(string \<times> int) list"
  group_records :: "(string \<times> pydict) list"
  last_initiative_messages :: "(string \<times> pydict) list"
  groups_received_initiative :: "string set"
  last_initiative_types :: "(string \<times> pydict) list"

definition initial_state :: core_state where
  "initial_state =
     \<lparr>consecutive_message_count = [], group_records = [], last_initiative_messages = [],
      groups_received_initiative = {}, last_initiative_types = []\<rparr>"

text \<open>\<^verbatim>\<open>self.consecutive_message_count.get(group_id, 0)\<close>\<close>

definition count_of :: "core_state \<Rightarrow> string \<Rightarrow> int" where
  "count_of s g = (case map_of (consecutive_message_count s) g of None \<Rightarrow> 0 | Some n \<Rightarrow> n)"

text \<open>The record the handler and the dispatcher store for a group.\<close>

definition activity_record :: "datetime \<Rightarrow> pyval \<Rightarrow> pyval \<Rightarrow> pydict" where
  "activity_record now conversation_id unified_msg_origin =
     [(''timestamp'', PDatetime now), (''conversation_id'', conversation_id),
      (''unified_msg_origin'', unified_msg_origin)]"

section \<open>Persistence: data\_loader.py\<close>

text \<open>
  The snapshot file holds one JSON object; each of its five entries may be missing
  (the loader tests \<^verbatim>\<open>in\<close> and uses \<^verbatim>\<open>.get\<close> with a default). A file that does not
  exist or does not parse leaves the state as it is (the loader logs the exception).
  The write itself is taken to succeed; the source logs a failing write and goes on.
\<close>

record stored_data =
  sd_group_records :: "(string \<times> pydict) list option"
  sd_last_initiative_messages :: "(string \<times> pydict) list option"
  sd_groups_received_initiative :: "string list option"
  sd_consecutive_message_count :: "(string \<times> int) list option"
  sd_last_initiative_types :: "(string \<times> pydict) list option"

datatype file_content = NoFile | Corrupt | Json stored_data

text \<open>
  \<^verbatim>\<open>_prepare_records_for_save\<close>: a dictionary value is prepared recursively, a datetime
  becomes its ISO string, every other value is copied. On the plugin's dictionaries the
  recursion is two levels deep: the dictionary of records, then the fields of a record.
  (The branch for \<^verbatim>\<open>datetime.date\<close> has no values to act on: the plugin stores none.)
\<close>

fun prepare_value :: "pyval \<Rightarrow> pyval" where
  "prepare_value (PDatetime d) = PStr (isoformat d)"
| "prepare_value v = v"

definition prepare_fields :: "pydict \<Rightarrow> pydict" where
  "prepare_fields r = map (\<lambda>(key, v). (key, prepare_value v)) r"

definition prepare_records_for_save :: "(string \<times> pydict) list \<Rightarrow> (string \<times> pydict) list" where
  "prepare_records_for_save records = map (\<lambda>(key, r). (key, prepare_fields r)) records"

text \<open>
  \<^verbatim>\<open>list(groups_received_initiative)\<close> enumerates the set in an order Python does not
  specify; the model takes the sorted one.
\<close>

definition save_data_to_storage :: "core_state \<Rightarrow> file_content" where
  "save_data_to_storage s =
     Json \<lparr>sd_group_records = Some (prepare_records_for_save (group_records s)),
           sd_last_initiative_messages =
             Some (prepare_records_for_save (last_initiative_messages s)),
           sd_groups_received_initiative =
             Some (sorted_list_of_set (groups_received_initiative s)),
           sd_consecutive_message_count = Some (consecutive_message_count s),
           sd_last_initiative_types =
             Some (prepare_records_for_save (last_initiative_types s))\<rparr>"

text \<open>
  The loader's timestamp conversion: a record whose \<^verbatim>\<open>"timestamp"\<close> is a string gets
  the parsed datetime, or the current time when the string does not parse; the
  assignment is in place.
\<close>

definition convert_timestamp :: "datetime \<Rightarrow> pydict \<Rightarrow> pydict" where
  "convert_timestamp now r =
     (case map_of r ''timestamp'' of
        Some (PStr str) \<Rightarrow>
          AList.update ''timestamp''
            (PDatetime (case fromisoformat str of Some d \<Rightarrow> d | None \<Rightarrow> now)) r
      | _ \<Rightarrow> r)"

definition convert_records :: "datetime \<Rightarrow> (string \<times> pydict) list \<Rightarrow> (string \<times> pydict) list" where
  "convert_records now records = map (\<lambda>(group_id, r). (group_id, convert_timestamp now r)) records"

definition or_empty :: "'a list option \<Rightarrow> 'a list" where
  "or_empty x = (case x of None \<Rightarrow> [] | Some l \<Rightarrow> l)"

text \<open>\<^verbatim>\<open>set_data\<close> with all five arguments given, as the loader calls it.\<close>

definition set_data ::
  "(string \<times> pydict) list \<Rightarrow> (string \<times> pydict) list \<Rightarrow> string set \<Rightarrow>
   (string \<times> int) list \<Rightarrow> (string \<times> pydict) list \<Rightarrow> core_state \<Rightarrow> core_state" where
  "set_data records messages received counts types s =
     s\<lparr>group_records := records, last_initiative_messages := messages,
       groups_received_initiative := received, consecutive_message_count := counts,
       last_initiative_types := types\<rparr>"

definition load_data_from_storage :: "datetime \<Rightarrow> file_content \<Rightarrow> core_state \<Rightarrow> core_state" where
  "load_data_from_storage now file s =
     (case file of
        NoFile \<Rightarrow> s
      | Corrupt \<Rightarrow> s
      | Json stored \<Rightarrow>
          set_data
            (convert_records now (or_empty (sd_group_records stored)))
            (convert_records now (or_empty (sd_last_initiative_messages stored)))
            (set (or_empty (sd_groups_received_initiative stored)))
            (or_empty (sd_consecutive_message_count stored))
            (convert_records now (or_empty (sd_last_initiative_types stored)))
            s)"

section \<open>The message manager: group\_message\_manager.py\<close>

text \<open>
  \<^verbatim>\<open>generate_and_send_message\<close> talks to the host application: it looks the conversation
  up, builds a fake event carrying the prompt behind the marker \<^verbatim>\<open>[SYS_PROMPT]\<close>, commits
  it to the platform and asks for the language model's answer. What the host does is
  an input of the model: whether the conversation exists, whether committing the event
  goes through, whether the request does. The whole body sits in
  \<^verbatim>\<open>try ... except Exception\<close>, so every failure comes back as the value \<^verbatim>\<open>False\<close>.

  The string literals of the source are Chinese; the model writes them in ASCII:
  \<open>''group initiative message''\<close> and \<open>''initiative message''\<close> for the two message types,
  English names for the times of day.
\<close>

datatype conversation_lookup = LookupRaises | NoConversation | Conversation

record msg_env =
  get_conversation :: conversation_lookup
  commit_event_ok :: bool
  request_llm_ok :: bool

record send_request =
  sr_group_id :: string
  sr_conversation_id :: pyval
  sr_unified_msg_origin :: pyval
  sr_prompts :: "nat list"
  sr_message_type :: string
  sr_time_period :: string
  sr_next_count :: int
  sr_final_notice :: bool

datatype send_result = ReturnedFalse | ReturnedRequest

definition generate_and_send_message ::
  "msg_env \<Rightarrow> send_request \<Rightarrow> core_state \<Rightarrow> send_result \<times> core_state" where
  "generate_and_send_message env req s =
     (case get_conversation env of
        LookupRaises \<Rightarrow> (ReturnedFalse, s)
      | NoConversation \<Rightarrow> (ReturnedFalse, s)
      | Conversation \<Rightarrow>
          if sr_prompts req = [] then (ReturnedFalse, s)
          else if \<not> commit_event_ok env then (ReturnedFalse, s)
          else
            (let s1 = (if sr_message_type req = ''initiative message''
                       then s\<lparr>groups_received_initiative :=
                                insert (sr_group_id req) (groups_received_initiative s)\<rparr>
                       else s)
             in if request_llm_ok env then (ReturnedRequest, s1) else (ReturnedFalse, s1)))"

section \<open>The escalation dispatcher: \_send\_initiative\_message\<close>

text \<open>The time-of-day label of an hour.\<close>

definition time_period_of :: "nat \<Rightarrow> string" where
  "time_period_of current_hour =
     (if 6 \<le> current_hour \<and> current_hour < 8 then ''morning''
      else if 8 \<le> current_hour \<and> current_hour < 11 then ''forenoon''
      else if 11 \<le> current_hour \<and> current_hour < 13 then ''lunch''
      else if 13 \<le> current_hour \<and> current_hour < 17 then ''afternoon''
      else if 17 \<le> current_hour \<and> current_hour < 19 then ''dinner''
      else if 19 \<le> current_hour \<and> current_hour < 23 then ''evening''
      else ''late night'')"

text \<open>
  \<^verbatim>\<open>random.randint(a, b)\<close> with the random source as an input, and the choice of the
  prompt: by its index in the table of ten prompts.
\<close>

definition randint :: "nat \<Rightarrow> nat \<Rightarrow> nat \<Rightarrow> nat" where
  "randint rnd a b = a + rnd mod (b - a + 1)"

definition initiative_prompts_len :: nat where
  "initiative_prompts_len = 10"

definition select_prompt_index :: "config \<Rightarrow> nat \<Rightarrow> int \<Rightarrow> nat" where
  "select_prompt_index cfg rnd next_count =
     min (if next_count = 1 then randint rnd 0 3
          else if next_count = 2 then randint rnd 4 5
          else if next_count = max_consecutive_messages cfg then randint rnd 8 9
          else randint rnd 6 7)
         (initiative_prompts_len - 1)"

text \<open>
  The count the dispatcher starts from: the \<^verbatim>\<open>"count"\<close> of the group's entry in
  \<^verbatim>\<open>last_initiative_types\<close> when there is one (0 when the entry has no count), and
  \<^verbatim>\<open>consecutive_message_count.get(group_id, 0)\<close> otherwise. \<^verbatim>\<open>current_count + 1\<close> raises
  TypeError on a count that is not a number; this is outside the dispatcher's
  \<^verbatim>\<open>try\<close>.
\<close>

definition current_count_of :: "core_state \<Rightarrow> string \<Rightarrow> exn + int" where
  "current_count_of s group_id =
     (case map_of (last_initiative_types s) group_id of
        Some last_info \<Rightarrow>
          (case map_of last_info ''count'' of
             None \<Rightarrow> Inr 0
           | Some (PInt n) \<Rightarrow> Inr n
           | Some (PBool b) \<Rightarrow> Inr (if b then 1 else 0)
           | Some _ \<Rightarrow> Inl TypeError)
      | None \<Rightarrow> Inr (count_of s group_id))"

text \<open>
  The clock readings of one invocation, in the order the source takes them: the hour
  for the time-of-day label, the timestamp of the type information, and \<^verbatim>\<open>now\<close>
  after the send, which stamps the message record and the re-created activity record.
\<close>

record dispatch_clock =
  clock_hour :: datetime
  clock_type_info :: datetime
  clock_now :: datetime

text \<open>
  What an invocation leaves behind: the state, the request it handed to the message
  manager (if it got that far) and the snapshot it wrote (if it committed).
\<close>

record dispatch_result =
  new_state :: core_state
  requested :: "send_request option"
  flushed :: "file_content option"

text \<open>The commit after the send: lines 343 to 389 of the source.\<close>

definition commit_dispatch ::
  "config \<Rightarrow> dispatch_clock \<Rightarrow> int \<Rightarrow> string \<Rightarrow> string \<Rightarrow> pyval \<Rightarrow> pyval \<Rightarrow>
   core_state \<Rightarrow> core_state" where
  "commit_dispatch cfg clock next_count time_period group_id conversation_id unified_msg_origin s =
     (let s1 = s\<lparr>consecutive_message_count :=
                   AList.update group_id next_count (consecutive_message_count s)\<rparr>;
          message_type_info =
            [(''count'', PInt next_count), (''time_period'', PStr time_period),
             (''timestamp'', PDatetime (clock_type_info clock))];
          s2 = s1\<lparr>last_initiative_types :=
                    AList.update group_id message_type_info (last_initiative_types s1)\<rparr>;
          now = clock_now clock;
          s3 = s2\<lparr>last_initiative_messages :=
                    AList.update group_id (activity_record now conversation_id unified_msg_origin)
                      (last_initiative_messages s2)\<rparr>;
          s4 = s3\<lparr>groups_received_initiative := insert group_id (groups_received_initiative s3)\<rparr>
      in if next_count < max_consecutive_messages cfg
         then s4\<lparr>group_records :=
                   AList.update group_id (activity_record now conversation_id unified_msg_origin)
                     (group_records s4)\<rparr>
         else s4)"

text \<open>
  The call to the message manager is awaited inside \<^verbatim>\<open>try ... except Exception\<close>: when
  it raises, the dispatcher logs and returns; when it returns, whatever it returns, the
  dispatcher goes on to the commit. \<open>send_outcome\<close> is what the awaited call does.
\<close>

datatype send_outcome = SendRaises | SendReturns send_result

definition dispatch_after_send ::
  "config \<Rightarrow> dispatch_clock \<Rightarrow> send_request \<Rightarrow> send_outcome \<Rightarrow> core_state \<Rightarrow> dispatch_result" where
  "dispatch_after_send cfg clock req outcome s =
     (case outcome of
        SendRaises \<Rightarrow> \<lparr>new_state = s, requested = Some req, flushed = None\<rparr>
      | SendReturns result \<Rightarrow>
          (let s' = commit_dispatch cfg clock (sr_next_count req) (sr_time_period req)
                      (sr_group_id req) (sr_conversation_id req) (sr_unified_msg_origin req) s
           in \<lparr>new_state = s', requested = Some req,
               flushed = Some (save_data_to_storage s')\<rparr>))"

text \<open>
  The arguments of the call to the message manager: the one selected prompt, the message
  type, the time-of-day label, and the extra context, which names the label and the
  number of the attempt and adds the final notice when \<^verbatim>\<open>next_count >= max\<close>.
\<close>

definition make_request ::
  "config \<Rightarrow> dispatch_clock \<Rightarrow> nat \<Rightarrow> string \<Rightarrow> pyval \<Rightarrow> pyval \<Rightarrow> int \<Rightarrow> send_request" where
  "make_request cfg clock rnd group_id conversation_id unified_msg_origin next_count =
     \<lparr>sr_group_id = group_id, sr_conversation_id = conversation_id,
      sr_unified_msg_origin = unified_msg_origin,
      sr_prompts = [select_prompt_index cfg rnd next_count],
      sr_message_type = ''group initiative message'',
      sr_time_period = time_period_of (hour (clock_hour clock)),
      sr_next_count = next_count,
      sr_final_notice = (next_count \<ge> max_consecutive_messages cfg)\<rparr>"

definition send_initiative_message ::
  "config \<Rightarrow> msg_env \<Rightarrow> dispatch_clock \<Rightarrow> nat \<Rightarrow> string \<Rightarrow> pyval \<Rightarrow> pyval \<Rightarrow>
   core_state \<Rightarrow> exn + dispatch_result" where
  "send_initiative_message cfg env clock rnd group_id conversation_id unified_msg_origin s =
     (if whitelist_enabled cfg \<and> group_id \<notin> whitelist_groups cfg
      then Inr \<lparr>new_state = s, requested = None, flushed = None\<rparr>
      else case current_count_of s group_id of
        Inl e \<Rightarrow> Inl e
      | Inr current_count \<Rightarrow>
          (let next_count = current_count + 1 in
           if next_count > max_consecutive_messages cfg
           then Inr \<lparr>new_state = s, requested = None, flushed = None\<rparr>
           else
             (let req = make_request cfg clock rnd group_id conversation_id
                          unified_msg_origin next_count;
                  (result, s1) = generate_and_send_message env req s
              in Inr (dispatch_after_send cfg clock req (SendReturns result) s1))))"

section \<open>The message handler: on\_group\_message and handle\_group\_message\<close>

record event =
  ev_group_id :: string
  message_str :: string
  ev_unified_msg_origin :: string

text \<open>
  \<^verbatim>\<open>handle_group_message\<close> asks the host for the current conversation id (a string or
  \<^verbatim>\<open>None\<close>; the call may raise, and then nothing is stored) and refreshes the group's
  activity record.
\<close>

datatype conversation_id_lookup = IdLookupRaises | IdLookupReturns pyval

definition handle_group_message ::
  "conversation_id_lookup \<Rightarrow> datetime \<Rightarrow> string \<Rightarrow> event \<Rightarrow> core_state \<Rightarrow> exn + core_state" where
  "handle_group_message lookup now group_id ev s =
     (case lookup of
        IdLookupRaises \<Rightarrow> Inl LookupError
      | IdLookupReturns conversation_id \<Rightarrow>
          Inr (s\<lparr>group_records :=
                   AList.update group_id
                     (activity_record now conversation_id (PStr (ev_unified_msg_origin ev)))
                     (group_records s)\<rparr>))"

record handler_result =
  handled_state :: core_state
  handler_flushed :: "file_content option"

definition reset_count :: "string \<Rightarrow> core_state \<Rightarrow> core_state" where
  "reset_count group_id s =
     (let s1 = s\<lparr>consecutive_message_count :=
                   AList.update group_id 0 (consecutive_message_count s)\<rparr>;
          s2 = (case map_of (last_initiative_types s1) group_id of
                  Some old_info \<Rightarrow>
                    s1\<lparr>last_initiative_types :=
                         AList.update group_id (AList.update ''count'' (PInt 0) old_info)
                           (last_initiative_types s1)\<rparr>
                | None \<Rightarrow> s1)
      in s2\<lparr>groups_received_initiative := groups_received_initiative s2 - {group_id}\<rparr>)"

definition on_group_message ::
  "conversation_id_lookup \<Rightarrow> datetime \<Rightarrow> event \<Rightarrow> core_state \<Rightarrow> exn + handler_result" where
  "on_group_message lookup now ev s =
     (let group_id = ev_group_id ev in
      if group_id = [] then Inr \<lparr>handled_state = s, handler_flushed = None\<rparr>
      else if str_contains ''[SYS_PROMPT]'' (message_str ev)
      then Inr \<lparr>handled_state = s, handler_flushed = None\<rparr>
      else case handle_group_message lookup now group_id ev s of
        Inl e \<Rightarrow> Inl e
      | Inr s1 \<Rightarrow>
          if group_id \<in> groups_received_initiative s1
          then (let s2 = reset_count group_id s1
                in Inr \<lparr>handled_state = s2, handler_flushed = Some (save_data_to_storage s2)\<rparr>)
          else Inr \<lparr>handled_state = s1, handler_flushed = None\<rparr>)"

section \<open>The inactivity scanner: \_check\_inactive\_conversations\_loop\<close>

text \<open>
  The task the scanner hands to the task manager. \<^verbatim>\<open>task_manager.py\<close> is not part of the
  sources, so the call \<^verbatim>\<open>schedule_task\<close> is an input of a tick: it returns, or it
  raises. \<open>max_delay\<close> is \<^verbatim>\<open>int(self.max_response_delay_seconds / 60)\<close>, which rounds
  towards zero.
\<close>

record task =
  task_group_id :: string
  task_scan_time :: datetime
  random_delay :: bool
  min_delay :: int
  max_delay :: int
  task_conversation_id :: pyval
  task_unified_msg_origin :: pyval

definition int_div_60 :: "int \<Rightarrow> int" where
  "int_div_60 x = (if 0 \<le> x then x div 60 else - ((- x) div 60))"

definition make_task :: "config \<Rightarrow> datetime \<Rightarrow> string \<Rightarrow> pyval \<Rightarrow> pyval \<Rightarrow> task" where
  "make_task cfg now group_id conversation_id unified_msg_origin =
     \<lparr>task_group_id = group_id, task_scan_time = now, random_delay = True, min_delay = 0,
      max_delay = int_div_60 (max_response_delay_seconds cfg),
      task_conversation_id = conversation_id,
      task_unified_msg_origin = unified_msg_origin\<rparr>"

record tick_input =
  hour_reading :: datetime
  now_reading :: datetime
  schedule_task_ok :: "task \<Rightarrow> bool"

record tick_result =
  tick_state :: core_state
  submitted :: "task list"
  raised :: "exn option"

text \<open>
  The body of the \<^verbatim>\<open>for\<close> loop for one entry of the snapshot
  \<^verbatim>\<open>list(self.group_records.items())\<close>: \<open>Inr (s, None)\<close> is \<^verbatim>\<open>continue\<close> (or the end of the
  body with nothing to do), \<open>Inr (s', Some t)\<close> is a task handed over and the group's
  record popped, \<open>Inl e\<close> is an exception. The count is read from the live state.
\<close>

definition check_group ::
  "config \<Rightarrow> datetime \<Rightarrow> (task \<Rightarrow> bool) \<Rightarrow> string \<Rightarrow> pydict \<Rightarrow> core_state \<Rightarrow>
   exn + (core_state \<times> task option)" where
  "check_group cfg now sched group_id r s =
     (if whitelist_enabled cfg \<and> group_id \<notin> whitelist_groups cfg then Inr (s, None)
      else if count_of s group_id \<ge> max_consecutive_messages cfg then Inr (s, None)
      else
        (case map_of r ''timestamp'' of
           None \<Rightarrow> Inr (s, None)
         | Some last_active \<Rightarrow>
             if \<not> truthy last_active then Inr (s, None)
             else
               (case last_active of
                  PDatetime last_time \<Rightarrow>
                    if inactive_at_least now last_time (inactive_time_seconds cfg)
                    then
                      (case map_of r ''conversation_id'' of
                         None \<Rightarrow> Inl KeyError
                       | Some conversation_id \<Rightarrow>
                           (case map_of r ''unified_msg_origin'' of
                              None \<Rightarrow> Inl KeyError
                            | Some unified_msg_origin \<Rightarrow>
                                (let t = make_task cfg now group_id conversation_id
                                           unified_msg_origin
                                 in if sched t
                                    then Inr (s\<lparr>group_records :=
                                                  AList.delete group_id (group_records s)\<rparr>,
                                              Some t)
                                    else Inl SchedulerError)))
                    else Inr (s, None)
                | _ \<Rightarrow> Inl TypeError)))"

text \<open>
  The \<^verbatim>\<open>for\<close> loop. An exception leaves it with the state as it is at that point and
  with the tasks handed over so far.
\<close>

fun scan_records ::
  "config \<Rightarrow> datetime \<Rightarrow> (task \<Rightarrow> bool) \<Rightarrow> (string \<times> pydict) list \<Rightarrow> core_state \<Rightarrow>
   task list \<Rightarrow> tick_result" where
  "scan_records cfg now sched [] s ts = \<lparr>tick_state = s, submitted = ts, raised = None\<rparr>"
| "scan_records cfg now sched ((group_id, r) # rest) s ts =
     (case check_group cfg now sched group_id r s of
        Inl e \<Rightarrow> \<lparr>tick_state = s, submitted = ts, raised = Some e\<rparr>
      | Inr (s', None) \<Rightarrow> scan_records cfg now sched rest s' ts
      | Inr (s', Some t) \<Rightarrow> scan_records cfg now sched rest s' (ts @ [t]))"

text \<open>One pass of the \<^verbatim>\<open>while True\<close> body after the sleep.\<close>

definition in_activity_window :: "config \<Rightarrow> nat \<Rightarrow> bool" where
  "in_activity_window cfg current_hour =
     (activity_start_hour cfg \<le> int current_hour \<and> int current_hour < activity_end_hour cfg)"

definition scanner_tick :: "config \<Rightarrow> tick_input \<Rightarrow> core_state \<Rightarrow> tick_result" where
  "scanner_tick cfg inp s =
     (if time_limit_enabled cfg \<and> \<not> in_activity_window cfg (hour (hour_reading inp))
      then \<lparr>tick_state = s, submitted = [], raised = None\<rparr>
      else scan_records cfg (now_reading inp) (schedule_task_ok inp) (group_records s) s [])"

text \<open>
  The loop: each element of the list is what happens at one \<^verbatim>\<open>await asyncio.sleep(30)\<close>,
  the cancellation of the task or the end of the sleep and then a tick. The
  \<^verbatim>\<open>try\<close> encloses the \<^verbatim>\<open>while True\<close>: CancelledError is logged and raised again, any
  other exception is logged and the coroutine returns. \<open>Sleeping\<close> is the loop still
  waiting when the listed events are used up.
\<close>

datatype loop_event = Cancel | Tick tick_input

datatype loop_status = Sleeping | Cancelled | ExitedOnError exn

record loop_result =
  loop_state :: core_state
  loop_submitted :: "task list"
  status :: loop_status

fun check_inactive_conversations_loop ::
  "config \<Rightarrow> loop_event list \<Rightarrow> core_state \<Rightarrow> task list \<Rightarrow> loop_result" where
  "check_inactive_conversations_loop cfg [] s ts =
     \<lparr>loop_state = s, loop_submitted = ts, status = Sleeping\<rparr>"
| "check_inactive_conversations_loop cfg (Cancel # evs) s ts =
     \<lparr>loop_state = s, loop_submitted = ts, status = Cancelled\<rparr>"
| "check_inactive_conversations_loop cfg (Tick inp # evs) s ts =
     (let r = scanner_tick cfg inp s in
      case raised r of
        Some e \<Rightarrow> \<lparr>loop_state = tick_state r, loop_submitted = ts @ submitted r,
                   status = ExitedOnError e\<rparr>
      | None \<Rightarrow> check_inactive_conversations_loop cfg evs (tick_state r) (ts @ submitted r))"

section \<open>Reachable states\<close>

text \<open>
  The states the in-memory operations build from the constructor's state: invocations of
  the dispatcher, inbound group messages (genuine or carrying the marker) and scanner
  ticks, with any arguments, clock readings and behaviour of the host.

  The coroutines run on one event loop and give way to each other only where they
  await. The handler awaits before it touches the state, so it is one step. The
  dispatcher awaits the message manager between reading the count and the commit, and
  the scanner awaits the task manager between two groups; the last two rules are the
  steps of a dispatcher and of a scanner that other operations have overtaken: a commit
  of a count computed earlier (which is positive, counts being never negative), and the
  scanner's body for one entry of an older snapshot.
\<close>

inductive reachable :: "config \<Rightarrow> core_state \<Rightarrow> bool" for cfg :: config where
  reach_init: "reachable cfg initial_state"
| reach_dispatch:
    "reachable cfg s \<Longrightarrow>
     send_initiative_message cfg env clock rnd group_id conversation_id unified_msg_origin s = Inr r \<Longrightarrow>
     reachable cfg (new_state r)"
| reach_message:
    "reachable cfg s \<Longrightarrow> on_group_message lookup now ev s = Inr h \<Longrightarrow>
     reachable cfg (handled_state h)"
| reach_tick:
    "reachable cfg s \<Longrightarrow> reachable cfg (tick_state (scanner_tick cfg inp s))"
| reach_commit:
    "reachable cfg s \<Longrightarrow> 0 < next_count \<Longrightarrow>
     reachable cfg
       (commit_dispatch cfg clock next_count time_period group_id conversation_id
          unified_msg_origin s)"
| reach_check_group:
    "reachable cfg s \<Longrightarrow> check_group cfg now sched group_id r s = Inr (s', t) \<Longrightarrow>
     reachable cfg s'"

section \<open>Auxiliary definitions for the proofs\<close>

text \<open>
  What the dispatcher and the handler keep true of a group's three bookkeeping entries:
  the count is not negative, a positive count goes with the mark in
  \<open>groups_received_initiative\<close>, and the count stored in \<open>last_initiative_types\<close> (which
  the dispatcher reads first) is the one in \<open>consecutive_message_count\<close>.
\<close>

definition group_agrees :: "core_state \<Rightarrow> string \<Rightarrow> bool" where
  "group_agrees s g =
     (0 \<le> count_of s g \<and>
      (0 < count_of s g \<longrightarrow> g \<in> groups_received_initiative s) \<and>
      (map_of (last_initiative_types s) g = None \<longrightarrow>
         map_of (consecutive_message_count s) g = None \<and> g \<notin> groups_received_initiative s) \<and>
      (\<forall>info. map_of (last_initiative_types s) g = Some info \<longrightarrow>
         map_of info ''count'' = Some (PInt (count_of s g))))"

text \<open>The state after \<^verbatim>\<open>handle_group_message\<close> has refreshed the activity record.\<close>

definition refreshed :: "pyval \<Rightarrow> datetime \<Rightarrow> event \<Rightarrow> core_state \<Rightarrow> core_state" where
  "refreshed cid now ev s =
     s\<lparr>group_records :=
         AList.update (ev_group_id ev)
           (activity_record now cid (PStr (ev_unified_msg_origin ev))) (group_records s)\<rparr>"

text \<open>Concrete inputs on which the theorems are exercised.\<close>

definition example_cfg :: config where
  "example_cfg =
     \<lparr>inactive_time_seconds = 7200, max_response_delay_seconds = 3600,
      time_limit_enabled = True, activity_start_hour = 8, activity_end_hour = 23,
      max_consecutive_messages = 3, whitelist_enabled = False, whitelist_groups = {}\<rparr>"

definition afternoon :: datetime where
  "afternoon = \<lparr>year = 2024, month = 5, day = 1, hour = 14, minute = 0, second = 0,
                 microsecond = 250000\<rparr>"

definition example_clock :: dispatch_clock where
  "example_clock = \<lparr>clock_hour = afternoon, clock_type_info = afternoon, clock_now = afternoon\<rparr>"

definition host_ok :: msg_env where
  "host_ok = \<lparr>get_conversation = Conversation, commit_event_ok = True, request_llm_ok = True\<rparr>"

definition host_without_conversation :: msg_env where
  "host_without_conversation =
     \<lparr>get_conversation = NoConversation, commit_event_ok = True, request_llm_ok = True\<rparr>"

definition marker_event :: event where
  "marker_event =
     \<lparr>ev_group_id = ''g1'', message_str = ''[SYS_PROMPT] say hello, it is afternoon'',
      ev_unified_msg_origin = ''aiocqhttp:group:g1''\<rparr>"


text \<open>The state after the first successful dispatch for group g1.\<close>

definition after_first_dispatch :: core_state where
  "after_first_dispatch =
     commit_dispatch example_cfg example_clock 1 ''afternoon'' ''g1'' (PStr ''c1'') (PStr ''u1'')
       initial_state"

definition terminal_cfg :: config where
  "terminal_cfg = example_cfg\<lparr>max_consecutive_messages := 1\<rparr>"

definition terminal_state :: core_state where
  "terminal_state =
     commit_dispatch terminal_cfg example_clock 1 ''afternoon'' ''g1'' (PStr ''c1'') (PStr ''u1'')
       initial_state"

definition after_second_dispatch :: core_state where
  "after_second_dispatch =
     commit_dispatch example_cfg example_clock 2 ''afternoon'' ''g1'' (PStr ''c1'') (PStr ''u1'')
       after_first_dispatch"

text \<open>Inputs for the scanner: a group that has been silent since the forenoon.\<close>

definition forenoon :: datetime where
  "forenoon = \<lparr>year = 2024, month = 5, day = 1, hour = 10, minute = 30, second = 0,
                microsecond = 0\<rparr>"

definition silent_group_state :: core_state where
  "silent_group_state =
     initial_state\<lparr>group_records :=
       [(''g1'', activity_record forenoon (PStr ''c1'') (PStr ''u1''))]\<rparr>"

text \<open>
  What the scanner tests of a group's record before it hands the group over: the
  whitelist, the count, the age of the timestamp, and the two fields it passes on.
\<close>

definition eligible :: "config \<Rightarrow> datetime \<Rightarrow> core_state \<Rightarrow> string \<Rightarrow> pydict \<Rightarrow> pyval \<Rightarrow> pyval \<Rightarrow> bool" where
  "eligible cfg now s g r c u =
     (\<not> (whitelist_enabled cfg \<and> g \<notin> whitelist_groups cfg) \<and>
      count_of s g < max_consecutive_messages cfg \<and>
      (\<exists>last_active. map_of r ''timestamp'' = Some (PDatetime last_active) \<and>
         inactive_at_least now last_active (inactive_time_seconds cfg)) \<and>
      map_of r ''conversation_id'' = Some c \<and>
      map_of r ''unified_msg_origin'' = Some u)"

definition afternoon_tick :: tick_input where
  "afternoon_tick =
     \<lparr>hour_reading = afternoon, now_reading = afternoon, schedule_task_ok = (\<lambda>t. True)\<rparr>"

definition failing_tick :: tick_input where
  "failing_tick =
     \<lparr>hour_reading = afternoon, now_reading = afternoon, schedule_task_ok = (\<lambda>t. False)\<rparr>"


definition short_delay_cfg :: config where
  "short_delay_cfg = example_cfg\<lparr>max_response_delay_seconds := 90\<rparr>"

definition numeric_timestamp_state :: core_state where
  "numeric_timestamp_state =
     initial_state\<lparr>group_records :=
       [(''g1'', [(''timestamp'', PInt 1714554000), (''conversation_id'', PStr ''c1''),
                  (''unified_msg_origin'', PStr ''u1'')])]\<rparr>"

text \<open>
  The records the program builds: the keys of a record are distinct (it is a dictionary),
  a datetime sits under \<^verbatim>\<open>"timestamp"\<close> only and is one the constructor accepts, and no
  string sits under \<^verbatim>\<open>"timestamp"\<close> (the handler and the dispatcher store datetimes there,
  and the loader turns every string there into a datetime). A Python set is finite.
\<close>

definition well_formed_value :: "string \<Rightarrow> pyval \<Rightarrow> bool" where
  "well_formed_value key v =
     (case v of
        PDatetime d \<Rightarrow> key = ''timestamp'' \<and> valid_datetime d
      | PStr str \<Rightarrow> key \<noteq> ''timestamp''
      | _ \<Rightarrow> True)"

definition well_formed_record :: "pydict \<Rightarrow> bool" where
  "well_formed_record r =
     (distinct (map fst r) \<and> list_all (\<lambda>(key, v). well_formed_value key v) r)"

definition well_formed_records :: "(string \<times> pydict) list \<Rightarrow> bool" where
  "well_formed_records records = list_all (\<lambda>(group_id, r). well_formed_record r) records"

definition well_formed_state :: "core_state \<Rightarrow> bool" where
  "well_formed_state s =
     (finite (groups_received_initiative s) \<and>
      well_formed_records (group_records s) \<and>
      well_formed_records (last_initiative_messages s) \<and>
      well_formed_records (last_initiative_types s))"

definition json_value :: "pyval \<Rightarrow> bool" where
  "json_value v = (case v of PDatetime d \<Rightarrow> False | _ \<Rightarrow> True)"

definition json_records :: "(string \<times> pydict) list \<Rightarrow> bool" where
  "json_records records =
     list_all (\<lambda>(group_id, r). distinct (map fst r) \<and> list_all (\<lambda>(key, v). json_value v) r)
       records"

definition json_document :: "stored_data \<Rightarrow> bool" where
  "json_document stored =
     (json_records (or_empty (sd_group_records stored)) \<and>
      json_records (or_empty (sd_last_initiative_messages stored)) \<and>
      json_records (or_empty (sd_last_initiative_types stored)))"

text \<open>What a parsed JSON document can hold: no datetime, and objects with distinct keys.\<close>

section \<open>The bookkeeping invariant\<close>


lemma count_of_cong:
  "consecutive_message_count s' = consecutive_message_count s \<Longrightarrow> count_of s' g = count_of s g"
  by (simp add: count_of_def)

lemma group_agrees_cong:
  assumes "consecutive_message_count s' = consecutive_message_count s"
    and "groups_received_initiative s' = groups_received_initiative s"
    and "last_initiative_types s' = last_initiative_types s"
  shows "group_agrees s' g = group_agrees s g"
  by (simp add: group_agrees_def count_of_cong[OF assms(1)] assms)

lemma group_agrees_current:
  "group_agrees s g \<Longrightarrow> current_count_of s g = Inr (count_of s g)"
  by (auto simp: group_agrees_def current_count_of_def count_of_def split: option.splits)

lemma group_agrees_initial: "group_agrees initial_state g"
  by (simp add: group_agrees_def initial_state_def count_of_def)

lemma commit_dispatch_fields:
  "count_of (commit_dispatch cfg clock n tp g c u s) g' = (if g' = g then n else count_of s g')"
  "groups_received_initiative (commit_dispatch cfg clock n tp g c u s) =
     insert g (groups_received_initiative s)"
  "map_of (last_initiative_types (commit_dispatch cfg clock n tp g c u s)) g' =
     (if g' = g
      then Some [(''count'', PInt n), (''time_period'', PStr tp),
                 (''timestamp'', PDatetime (clock_type_info clock))]
      else map_of (last_initiative_types s) g')"
  "map_of (consecutive_message_count (commit_dispatch cfg clock n tp g c u s)) g' =
     (if g' = g then Some n else map_of (consecutive_message_count s) g')"
  by (simp_all add: commit_dispatch_def Let_def count_of_def update_conv')

lemma group_agrees_commit:
  assumes "group_agrees s g'" "0 < n"
  shows "group_agrees (commit_dispatch cfg clock n tp g c u s) g'"
  using assms unfolding group_agrees_def
  by (simp add: commit_dispatch_fields)

lemma generate_state:
  "sr_message_type req \<noteq> ''initiative message'' \<Longrightarrow>
   snd (generate_and_send_message env req s) = s"
  by (simp add: generate_and_send_message_def Let_def split: conversation_lookup.splits)

lemma send_initiative_message_state:
  assumes "send_initiative_message cfg env clock rnd g c u s = Inr r"
  shows "new_state r = s \<or>
         (\<exists>n. current_count_of s g = Inr n \<and> n + 1 \<le> max_consecutive_messages cfg \<and>
              new_state r =
                commit_dispatch cfg clock (n + 1) (time_period_of (hour (clock_hour clock))) g c u s)"
proof (cases "whitelist_enabled cfg \<and> g \<notin> whitelist_groups cfg")
  case True
  with assms show ?thesis by (auto simp: send_initiative_message_def)
next
  case wl: False
  show ?thesis
  proof (cases "current_count_of s g")
    case (Inl e)
    with assms wl show ?thesis by (simp add: send_initiative_message_def)
  next
    case (Inr n)
    show ?thesis
    proof (cases "n + 1 > max_consecutive_messages cfg")
      case True
      with assms wl Inr show ?thesis by (auto simp: send_initiative_message_def)
    next
      case False
      define req where "req = make_request cfg clock rnd g c u (n + 1)"
      have st: "snd (generate_and_send_message env req s) = s"
        by (rule generate_state) (simp add: req_def make_request_def)
      obtain res where gen: "generate_and_send_message env req s = (res, s)"
        using st by (cases "generate_and_send_message env req s") simp
      have "r = dispatch_after_send cfg clock req (SendReturns res) s"
        using assms wl Inr False gen
        by (simp add: send_initiative_message_def Let_def req_def[symmetric])
      then have "new_state r = commit_dispatch cfg clock (n + 1)
                   (time_period_of (hour (clock_hour clock))) g c u s"
        by (simp add: dispatch_after_send_def Let_def req_def make_request_def)
      with Inr False show ?thesis by simp
    qed
  qed
qed

lemma group_agrees_dispatch:
  assumes "\<And>g. group_agrees s g"
    and "send_initiative_message cfg env clock rnd g c u s = Inr r"
  shows "group_agrees (new_state r) g'"
proof -
  have cur: "current_count_of s g = Inr (count_of s g)"
    using assms(1) by (rule group_agrees_current)
  have nonneg: "0 \<le> count_of s g"
    using assms(1)[of g] by (simp add: group_agrees_def)
  from send_initiative_message_state[OF assms(2)] show ?thesis
  proof
    assume "new_state r = s"
    then show ?thesis using assms(1) by simp
  next
    assume "\<exists>n. current_count_of s g = Inr n \<and> n + 1 \<le> max_consecutive_messages cfg \<and>
              new_state r =
                commit_dispatch cfg clock (n + 1) (time_period_of (hour (clock_hour clock))) g c u s"
    then obtain n where n: "current_count_of s g = Inr n"
      and st: "new_state r = commit_dispatch cfg clock (n + 1)
                 (time_period_of (hour (clock_hour clock))) g c u s"
      by blast
    from n cur have "n = count_of s g" by simp
    with nonneg have "0 < n + 1" by simp
    with assms(1)[of g'] show ?thesis
      unfolding st by (rule group_agrees_commit)
  qed
qed

lemma reset_count_fields:
  "count_of (reset_count g s) g' = (if g' = g then 0 else count_of s g')"
  "groups_received_initiative (reset_count g s) = groups_received_initiative s - {g}"
  "map_of (consecutive_message_count (reset_count g s)) g' =
     (if g' = g then Some 0 else map_of (consecutive_message_count s) g')"
  "map_of (last_initiative_types (reset_count g s)) g' =
     (if g' = g
      then (case map_of (last_initiative_types s) g of
              None \<Rightarrow> None
            | Some old_info \<Rightarrow> Some (AList.update ''count'' (PInt 0) old_info))
      else map_of (last_initiative_types s) g')"
  by (cases "map_of (last_initiative_types s) g";
      simp add: reset_count_def Let_def count_of_def update_conv')+

lemma group_agrees_reset:
  assumes "\<And>g. group_agrees s g" "g \<in> groups_received_initiative s"
  shows "group_agrees (reset_count g s) g'"
proof -
  obtain info where info: "map_of (last_initiative_types s) g = Some info"
    using assms(1)[of g] assms(2) by (auto simp: group_agrees_def)
  show ?thesis
    using assms(1)[of g'] info unfolding group_agrees_def
    by (simp add: reset_count_fields update_conv')
qed

lemma handle_group_message_returns:
  "handle_group_message (IdLookupReturns cid) now (ev_group_id ev) ev s = Inr (refreshed cid now ev s)"
  by (simp add: handle_group_message_def refreshed_def)

lemma on_group_message_genuine:
  assumes "ev_group_id ev \<noteq> []" "\<not> str_contains ''[SYS_PROMPT]'' (message_str ev)"
  shows "on_group_message (IdLookupReturns cid) now ev s =
           Inr (if ev_group_id ev \<in> groups_received_initiative s
                then \<lparr>handled_state = reset_count (ev_group_id ev) (refreshed cid now ev s),
                      handler_flushed =
                        Some (save_data_to_storage
                                (reset_count (ev_group_id ev) (refreshed cid now ev s)))\<rparr>
                else \<lparr>handled_state = refreshed cid now ev s, handler_flushed = None\<rparr>)"
proof -
  have rcv: "groups_received_initiative (refreshed cid now ev s) = groups_received_initiative s"
    by (simp add: refreshed_def)
  show ?thesis
    unfolding on_group_message_def Let_def handle_group_message_returns
    using assms rcv by simp
qed

lemma on_group_message_ignored:
  assumes "ev_group_id ev = [] \<or> str_contains ''[SYS_PROMPT]'' (message_str ev)"
  shows "on_group_message lookup now ev s = Inr \<lparr>handled_state = s, handler_flushed = None\<rparr>"
  using assms unfolding on_group_message_def Let_def by auto

lemma on_group_message_raises:
  assumes "ev_group_id ev \<noteq> []" "\<not> str_contains ''[SYS_PROMPT]'' (message_str ev)"
  shows "on_group_message IdLookupRaises now ev s = Inl LookupError"
  using assms
  unfolding on_group_message_def handle_group_message_def Let_def by simp

lemma group_agrees_message:
  assumes "\<And>g. group_agrees s g"
    and "on_group_message lookup now ev s = Inr h"
  shows "group_agrees (handled_state h) g'"
proof (cases "ev_group_id ev = [] \<or> str_contains ''[SYS_PROMPT]'' (message_str ev)")
  case True
  from assms(2) have "handled_state h = s"
    unfolding on_group_message_ignored[OF True] by auto
  with assms(1) show ?thesis by simp
next
  case False
  then have g: "ev_group_id ev \<noteq> []" and m: "\<not> str_contains ''[SYS_PROMPT]'' (message_str ev)"
    by simp_all
  show ?thesis
  proof (cases lookup)
    case IdLookupRaises
    with assms(2) show ?thesis
      unfolding IdLookupRaises on_group_message_raises[OF g m] by simp
  next
    case (IdLookupReturns cid)
    have "group_agrees (refreshed cid now ev s) g = group_agrees s g" for g
      by (rule group_agrees_cong) (simp_all add: refreshed_def)
    then have s1: "group_agrees (refreshed cid now ev s) g" for g
      using assms(1)[of g] by simp
    have rcv: "groups_received_initiative (refreshed cid now ev s) = groups_received_initiative s"
      by (simp add: refreshed_def)
    show ?thesis
    proof (cases "ev_group_id ev \<in> groups_received_initiative s")
      case True
      with assms(2) have "handled_state h = reset_count (ev_group_id ev) (refreshed cid now ev s)"
        unfolding IdLookupReturns on_group_message_genuine[OF g m] by auto
      moreover have "ev_group_id ev \<in> groups_received_initiative (refreshed cid now ev s)"
        using True rcv by simp
      ultimately show ?thesis
        using group_agrees_reset[of "refreshed cid now ev s" "ev_group_id ev" g'] s1 by simp
    next
      case False
      with assms(2) have "handled_state h = refreshed cid now ev s"
        unfolding IdLookupReturns on_group_message_genuine[OF g m] by auto
      then show ?thesis using s1 by simp
    qed
  qed
qed

lemma check_group_outcome:
  "case check_group cfg now sched g r s of
     Inl e \<Rightarrow> True
   | Inr (s', t) \<Rightarrow>
       (s' = s \<and> t = None) \<or>
       (s' = s\<lparr>group_records := AList.delete g (group_records s)\<rparr> \<and>
        (\<exists>c u. t = Some (make_task cfg now g c u)))"
  by (simp add: check_group_def Let_def split: option.split pyval.split) blast

lemma check_group_fields:
  assumes "check_group cfg now sched g r s = Inr (s', t)"
  shows "consecutive_message_count s' = consecutive_message_count s"
    and "groups_received_initiative s' = groups_received_initiative s"
    and "last_initiative_types s' = last_initiative_types s"
    and "last_initiative_messages s' = last_initiative_messages s"
  using check_group_outcome[where cfg=cfg and now=now and sched=sched and g=g and r=r and s=s] assms
  by auto

lemma scan_records_fields:
  "consecutive_message_count (tick_state (scan_records cfg now sched recs s ts)) =
     consecutive_message_count s \<and>
   groups_received_initiative (tick_state (scan_records cfg now sched recs s ts)) =
     groups_received_initiative s \<and>
   last_initiative_types (tick_state (scan_records cfg now sched recs s ts)) =
     last_initiative_types s \<and>
   last_initiative_messages (tick_state (scan_records cfg now sched recs s ts)) =
     last_initiative_messages s"
proof (induction recs arbitrary: s ts)
  case Nil
  show ?case by simp
next
  case (Cons p recs)
  obtain g r where p: "p = (g, r)" by (cases p)
  show ?case
  proof (cases "check_group cfg now sched g r s")
    case (Inl e)
    then show ?thesis by (simp add: p)
  next
    case (Inr q)
    obtain s' t where q: "q = (s', t)" by (cases q)
    from Inr q have cg: "check_group cfg now sched g r s = Inr (s', t)" by simp
    show ?thesis
      using Cons.IH[of s'] check_group_fields[OF cg]
      by (cases t) (simp_all add: p cg)
  qed
qed

lemma scanner_tick_fields:
  "consecutive_message_count (tick_state (scanner_tick cfg inp s)) = consecutive_message_count s"
  "groups_received_initiative (tick_state (scanner_tick cfg inp s)) = groups_received_initiative s"
  "last_initiative_types (tick_state (scanner_tick cfg inp s)) = last_initiative_types s"
  "last_initiative_messages (tick_state (scanner_tick cfg inp s)) = last_initiative_messages s"
  by (simp_all add: scanner_tick_def scan_records_fields)

lemma group_agrees_tick:
  assumes "group_agrees s g"
  shows "group_agrees (tick_state (scanner_tick cfg inp s)) g"
proof -
  have "group_agrees (tick_state (scanner_tick cfg inp s)) g = group_agrees s g"
    by (rule group_agrees_cong) (simp_all add: scanner_tick_fields)
  with assms show ?thesis by simp
qed

lemma reachable_group_agrees:
  "reachable cfg s \<Longrightarrow> group_agrees s g"
proof (induction arbitrary: g rule: reachable.induct)
  case reach_init
  show ?case by (rule group_agrees_initial)
next
  case (reach_dispatch s env clock rnd group_id conversation_id unified_msg_origin r)
  show ?case
    using reach_dispatch.IH reach_dispatch.hyps(2) by (rule group_agrees_dispatch)
next
  case (reach_message s lookup now ev h)
  show ?case
    using reach_message.IH reach_message.hyps(2) by (rule group_agrees_message)
next
  case (reach_tick s inp)
  show ?case
    using reach_tick.IH by (rule group_agrees_tick)
next
  case (reach_commit s next_count clock time_period group_id conversation_id unified_msg_origin)
  show ?case
    using reach_commit.IH reach_commit.hyps(2) by (rule group_agrees_commit)
next
  case (reach_check_group s now sched group_id r s' t)
  have "group_agrees s' x = group_agrees s x" for x
    by (rule group_agrees_cong) (simp_all add: check_group_fields[OF reach_check_group.hyps(2)])
  with reach_check_group.IH show ?case by simp
qed


section \<open>The dispatcher\<close>

lemma generate_result:
  "generate_and_send_message env (make_request cfg clock rnd g c u n) s =
     (if get_conversation env = Conversation \<and> commit_event_ok env \<and> request_llm_ok env
      then ReturnedRequest else ReturnedFalse, s)"
  by (simp add: generate_and_send_message_def make_request_def Let_def
      split: conversation_lookup.splits)

lemma send_initiative_message_sends:
  assumes "\<not> (whitelist_enabled cfg \<and> g \<notin> whitelist_groups cfg)"
    and "current_count_of s g = Inr n"
    and "n + 1 \<le> max_consecutive_messages cfg"
  shows "send_initiative_message cfg env clock rnd g c u s =
           Inr \<lparr>new_state =
                  commit_dispatch cfg clock (n + 1) (time_period_of (hour (clock_hour clock)))
                    g c u s,
                requested = Some (make_request cfg clock rnd g c u (n + 1)),
                flushed =
                  Some (save_data_to_storage
                    (commit_dispatch cfg clock (n + 1) (time_period_of (hour (clock_hour clock)))
                       g c u s))\<rparr>"
  using assms unfolding send_initiative_message_def Let_def generate_result
  by (simp add: dispatch_after_send_def Let_def make_request_def)

lemma send_initiative_message_aborts:
  assumes "current_count_of s g = Inr n"
    and "n + 1 > max_consecutive_messages cfg"
  shows "send_initiative_message cfg env clock rnd g c u s =
           Inr \<lparr>new_state = s, requested = None, flushed = None\<rparr>"
  using assms unfolding send_initiative_message_def Let_def by simp

lemma commit_dispatch_records:
  "map_of (group_records (commit_dispatch cfg clock n tp g c u s)) g' =
     (if n < max_consecutive_messages cfg \<and> g' = g
      then Some (activity_record (clock_now clock) c u)
      else map_of (group_records s) g')"
  "\<not> n < max_consecutive_messages cfg \<Longrightarrow>
     group_records (commit_dispatch cfg clock n tp g c u s) = group_records s"
  by (simp_all add: commit_dispatch_def Let_def update_conv')

lemma example_current_count: "current_count_of initial_state g = Inr 0"
  by (simp add: current_count_of_def initial_state_def count_of_def)

text \<open>
  Claim C1. When the message manager returns the request (the send went through), the
  dispatcher commits \<open>next_count\<close>, the count it started from plus one, as the group's
  \<open>consecutive_message_count\<close>, together with the type information (count, time of
  day, timestamp) and the mark in \<open>groups_received_initiative\<close>. Below the maximum it
  stores a fresh activity record stamped with the clock reading taken after the send; at
  the maximum it leaves \<open>group_records\<close> as it is. In a reachable state the count it
  started from is the group's \<open>consecutive_message_count\<close>.
\<close>

theorem successful_dispatch_commits:
  assumes "\<not> (whitelist_enabled cfg \<and> g \<notin> whitelist_groups cfg)"
    and "current_count_of s g = Inr n"
    and "n + 1 \<le> max_consecutive_messages cfg"
    and "generate_and_send_message env (make_request cfg clock rnd g c u (n + 1)) s =
           (ReturnedRequest, s)"
  shows "\<exists>r. send_initiative_message cfg env clock rnd g c u s = Inr r \<and>
           requested r = Some (make_request cfg clock rnd g c u (n + 1)) \<and>
           (reachable cfg s \<longrightarrow> n = count_of s g) \<and>
           count_of (new_state r) g = n + 1 \<and>
           map_of (last_initiative_types (new_state r)) g =
             Some [(''count'', PInt (n + 1)),
                   (''time_period'', PStr (time_period_of (hour (clock_hour clock)))),
                   (''timestamp'', PDatetime (clock_type_info clock))] \<and>
           g \<in> groups_received_initiative (new_state r) \<and>
           (n + 1 < max_consecutive_messages cfg \<longrightarrow>
              map_of (group_records (new_state r)) g =
                Some (activity_record (clock_now clock) c u)) \<and>
           (n + 1 = max_consecutive_messages cfg \<longrightarrow>
              group_records (new_state r) = group_records s)"
proof -
  have agree: "reachable cfg s \<longrightarrow> n = count_of s g"
    using group_agrees_current[OF reachable_group_agrees, of cfg s g] assms(2) by auto
  show ?thesis
    unfolding send_initiative_message_sends[OF assms(1-3)]
    using agree by (simp add: commit_dispatch_fields commit_dispatch_records)
qed

text \<open>
  The theorem at the first dispatch for a group (count 0 of at most 3: the record is
  re-created) and at a dispatch that reaches the maximum (count 0 of at most 1: the
  records are left alone).
\<close>

theorem successful_dispatch_commits_witness:
  "(\<not> (whitelist_enabled example_cfg \<and> ''g1'' \<notin> whitelist_groups example_cfg) \<and>
    current_count_of initial_state ''g1'' = Inr 0 \<and>
    0 + 1 \<le> max_consecutive_messages example_cfg \<and>
    generate_and_send_message host_ok
      (make_request example_cfg example_clock 0 ''g1'' (PStr ''c1'') (PStr ''u1'') (0 + 1))
      initial_state = (ReturnedRequest, initial_state) \<and>
    reachable example_cfg initial_state \<and>
    0 + 1 < max_consecutive_messages example_cfg \<and>
    (\<exists>r. send_initiative_message example_cfg host_ok example_clock 0 ''g1'' (PStr ''c1'')
           (PStr ''u1'') initial_state = Inr r \<and>
         count_of (new_state r) ''g1'' = 1 \<and>
         map_of (group_records (new_state r)) ''g1'' =
           Some (activity_record afternoon (PStr ''c1'') (PStr ''u1'')))) \<and>
   (\<not> (whitelist_enabled (example_cfg\<lparr>max_consecutive_messages := 1\<rparr>) \<and>
        ''g1'' \<notin> whitelist_groups (example_cfg\<lparr>max_consecutive_messages := 1\<rparr>)) \<and>
    0 + 1 \<le> max_consecutive_messages (example_cfg\<lparr>max_consecutive_messages := 1\<rparr>) \<and>
    generate_and_send_message host_ok
      (make_request (example_cfg\<lparr>max_consecutive_messages := 1\<rparr>) example_clock 0 ''g1''
         (PStr ''c1'') (PStr ''u1'') (0 + 1))
      initial_state = (ReturnedRequest, initial_state) \<and>
    0 + 1 = max_consecutive_messages (example_cfg\<lparr>max_consecutive_messages := 1\<rparr>) \<and>
    (\<exists>r. send_initiative_message (example_cfg\<lparr>max_consecutive_messages := 1\<rparr>) host_ok
           example_clock 0 ''g1'' (PStr ''c1'') (PStr ''u1'') initial_state = Inr r \<and>
         count_of (new_state r) ''g1'' = 1 \<and>
         group_records (new_state r) = group_records initial_state))"
proof -
  let ?cfg1 = "example_cfg\<lparr>max_consecutive_messages := 1\<rparr>"
  have h1: "\<not> (whitelist_enabled example_cfg \<and> ''g1'' \<notin> whitelist_groups example_cfg)"
    by (simp add: example_cfg_def)
  have h2: "current_count_of initial_state ''g1'' = Inr 0"
    by (rule example_current_count)
  have h3: "0 + 1 \<le> max_consecutive_messages example_cfg"
    by (simp add: example_cfg_def)
  have h4: "generate_and_send_message host_ok
     (make_request example_cfg example_clock 0 ''g1'' (PStr ''c1'') (PStr ''u1'') (0 + 1))
     initial_state = (ReturnedRequest, initial_state)"
    by (simp add: generate_result host_ok_def)
  have h5: "reachable example_cfg initial_state" by (rule reach_init)
  have h6: "0 + 1 < max_consecutive_messages example_cfg" by (simp add: example_cfg_def)
  from successful_dispatch_commits[OF h1 h2 h3 h4] h6
  have a: "\<exists>r. send_initiative_message example_cfg host_ok example_clock 0 ''g1'' (PStr ''c1'')
          (PStr ''u1'') initial_state = Inr r \<and>
        count_of (new_state r) ''g1'' = 1 \<and>
        map_of (group_records (new_state r)) ''g1'' =
          Some (activity_record afternoon (PStr ''c1'') (PStr ''u1''))"
    by (auto simp: example_clock_def)
  have k1: "\<not> (whitelist_enabled ?cfg1 \<and> ''g1'' \<notin> whitelist_groups ?cfg1)"
    by (simp add: example_cfg_def)
  have k3: "0 + 1 \<le> max_consecutive_messages ?cfg1" by simp
  have k4: "generate_and_send_message host_ok
     (make_request ?cfg1 example_clock 0 ''g1'' (PStr ''c1'') (PStr ''u1'') (0 + 1))
     initial_state = (ReturnedRequest, initial_state)"
    by (simp add: generate_result host_ok_def)
  have k6: "0 + 1 = max_consecutive_messages ?cfg1" by simp
  from successful_dispatch_commits[OF k1 h2 k3 k4] k6
  have b: "\<exists>r. send_initiative_message ?cfg1 host_ok example_clock 0 ''g1'' (PStr ''c1'')
          (PStr ''u1'') initial_state = Inr r \<and>
        count_of (new_state r) ''g1'' = 1 \<and>
        group_records (new_state r) = group_records initial_state"
    by auto
  from h1 h2 h3 h4 h5 h6 a k1 k3 k4 k6 b show ?thesis by blast
qed

section \<open>Example runs of the dispatcher\<close>

lemma time_period_afternoon: "time_period_of (hour (clock_hour example_clock)) = ''afternoon''"
  by (simp add: time_period_of_def example_clock_def afternoon_def)

lemma first_dispatch:
  "send_initiative_message example_cfg host_ok example_clock rnd ''g1'' (PStr ''c1'') (PStr ''u1'')
     initial_state =
   Inr \<lparr>new_state = after_first_dispatch,
        requested = Some (make_request example_cfg example_clock rnd ''g1'' (PStr ''c1'')
                            (PStr ''u1'') 1),
        flushed = Some (save_data_to_storage after_first_dispatch)\<rparr>"
proof -
  have h1: "\<not> (whitelist_enabled example_cfg \<and> ''g1'' \<notin> whitelist_groups example_cfg)"
    by (simp add: example_cfg_def)
  have h3: "0 + 1 \<le> max_consecutive_messages example_cfg"
    by (simp add: example_cfg_def)
  show ?thesis
    using send_initiative_message_sends[OF h1 example_current_count h3]
    by (simp add: time_period_afternoon after_first_dispatch_def)
qed

lemma reachable_after_first_dispatch: "reachable example_cfg after_first_dispatch"
  using reach_dispatch[OF reach_init first_dispatch] by simp

lemma after_first_dispatch_count: "count_of after_first_dispatch ''g1'' = 1"
  by (simp add: after_first_dispatch_def commit_dispatch_fields)

lemma terminal_dispatch:
  "send_initiative_message terminal_cfg env example_clock rnd ''g1'' (PStr ''c1'') (PStr ''u1'')
     initial_state =
   Inr \<lparr>new_state = terminal_state,
        requested = Some (make_request terminal_cfg example_clock rnd ''g1'' (PStr ''c1'')
                            (PStr ''u1'') 1),
        flushed = Some (save_data_to_storage terminal_state)\<rparr>"
proof -
  have h1: "\<not> (whitelist_enabled terminal_cfg \<and> ''g1'' \<notin> whitelist_groups terminal_cfg)"
    by (simp add: example_cfg_def terminal_cfg_def)
  have h3: "0 + 1 \<le> max_consecutive_messages terminal_cfg"
    by (simp add: terminal_cfg_def)
  show ?thesis
    using send_initiative_message_sends[OF h1 example_current_count h3]
    by (simp add: time_period_afternoon terminal_state_def)
qed


lemma terminal_state_count: "count_of terminal_state ''g1'' = max_consecutive_messages terminal_cfg"
  by (simp add: terminal_state_def commit_dispatch_fields terminal_cfg_def)

lemma any_host_first_dispatch:
  "send_initiative_message example_cfg env example_clock rnd ''g1'' (PStr ''c1'') (PStr ''u1'')
     initial_state =
   Inr \<lparr>new_state = after_first_dispatch,
        requested = Some (make_request example_cfg example_clock rnd ''g1'' (PStr ''c1'')
                            (PStr ''u1'') 1),
        flushed = Some (save_data_to_storage after_first_dispatch)\<rparr>"
proof -
  have h1: "\<not> (whitelist_enabled example_cfg \<and> ''g1'' \<notin> whitelist_groups example_cfg)"
    by (simp add: example_cfg_def)
  have h3: "0 + 1 \<le> max_consecutive_messages example_cfg"
    by (simp add: example_cfg_def)
  show ?thesis
    using send_initiative_message_sends[OF h1 example_current_count h3]
    by (simp add: time_period_afternoon after_first_dispatch_def)
qed

lemma after_first_dispatch_current: "current_count_of after_first_dispatch ''g1'' = Inr 1"
  using group_agrees_current[OF reachable_group_agrees[OF reachable_after_first_dispatch], of "''g1''"]
  by (simp add: after_first_dispatch_count)

lemma second_dispatch:
  "send_initiative_message example_cfg env example_clock rnd ''g1'' (PStr ''c1'') (PStr ''u1'')
     after_first_dispatch =
   Inr \<lparr>new_state = after_second_dispatch,
        requested = Some (make_request example_cfg example_clock rnd ''g1'' (PStr ''c1'')
                            (PStr ''u1'') 2),
        flushed = Some (save_data_to_storage after_second_dispatch)\<rparr>"
proof -
  have h1: "\<not> (whitelist_enabled example_cfg \<and> ''g1'' \<notin> whitelist_groups example_cfg)"
    by (simp add: example_cfg_def)
  have h3: "1 + 1 \<le> max_consecutive_messages example_cfg"
    by (simp add: example_cfg_def)
  show ?thesis
    using send_initiative_message_sends[OF h1 after_first_dispatch_current h3]
    by (simp add: time_period_afternoon after_second_dispatch_def)
qed

lemma after_first_dispatch_facts:
  "''g1'' \<in> groups_received_initiative after_first_dispatch"
  "map_of (group_records after_first_dispatch) ''g1'' =
     Some (activity_record afternoon (PStr ''c1'') (PStr ''u1''))"
  "map_of (last_initiative_types after_first_dispatch) ''g1'' =
     Some [(''count'', PInt 1), (''time_period'', PStr ''afternoon''),
           (''timestamp'', PDatetime afternoon)]"
  by (simp_all add: after_first_dispatch_def commit_dispatch_fields commit_dispatch_records
        example_cfg_def example_clock_def)

section \<open>The message handler\<close>

lemma marker_event_marked: "str_contains ''[SYS_PROMPT]'' (message_str marker_event)"
  by (simp add: marker_event_def)


text \<open>
  Claim C7. A group message whose text contains the marker \<^verbatim>\<open>[SYS_PROMPT]\<close> is dropped by
  the handler before it touches anything: the state that comes back is the state that
  went in (activity records, counts, type information and the marks), and nothing is
  written to storage.
\<close>

theorem marker_message_changes_nothing:
  assumes "str_contains ''[SYS_PROMPT]'' (message_str ev)"
  shows "on_group_message lookup now ev s = Inr \<lparr>handled_state = s, handler_flushed = None\<rparr>"
  using assms by (simp add: on_group_message_ignored)

text \<open>The theorem on the bot's own prompt arriving after the first dispatch.\<close>

theorem marker_message_changes_nothing_witness:
  "str_contains ''[SYS_PROMPT]'' (message_str marker_event) \<and>
   on_group_message (IdLookupReturns (PStr ''c1'')) afternoon marker_event after_first_dispatch =
     Inr \<lparr>handled_state = after_first_dispatch, handler_flushed = None\<rparr> \<and>
   count_of after_first_dispatch ''g1'' = 1"
  using marker_message_changes_nothing[OF marker_event_marked] marker_event_marked
    after_first_dispatch_count
  by simp

text \<open>
  Claim C10. In every state the in-memory operations reach, a group with a positive
  \<open>consecutive_message_count\<close> is in \<open>groups_received_initiative\<close>, the set on which the
  handler gates the reset of the count.
\<close>

theorem nonzero_count_is_marked:
  assumes "reachable cfg s" and "0 < count_of s g"
  shows "g \<in> groups_received_initiative s"
  using reachable_group_agrees[OF assms(1), of g] assms(2) by (simp add: group_agrees_def)

text \<open>The theorem on the state after the first dispatch.\<close>

theorem nonzero_count_is_marked_witness:
  "reachable example_cfg after_first_dispatch \<and> 0 < count_of after_first_dispatch ''g1'' \<and>
   ''g1'' \<in> groups_received_initiative after_first_dispatch"
proof -
  have c: "0 < count_of after_first_dispatch ''g1''"
    by (simp add: after_first_dispatch_count)
  from nonzero_count_is_marked[OF reachable_after_first_dispatch c]
    reachable_after_first_dispatch c
  show ?thesis by simp
qed



section \<open>Failed sends and repeated invocations\<close>

text \<open>The dispatcher leaves the state alone when the awaited call raises.\<close>

lemma raised_send_changes_nothing:
  "dispatch_after_send cfg clock req SendRaises s =
     \<lparr>new_state = s, requested = Some req, flushed = None\<rparr>"
  by (simp add: dispatch_after_send_def)

text \<open>
  Claim C3. A failing generation and dispatch step should leave the escalation state and
  the activity records alone. But the message manager catches every exception of that
  step and returns \<^verbatim>\<open>False\<close>, and the dispatcher never looks at the value: with a
  conversation that cannot be found, nothing is sent, and the dispatcher still raises the
  count from 0 to 1, stores the type information, marks the group and puts its activity
  record back.
\<close>

theorem failed_send_still_commits:
  "generate_and_send_message host_without_conversation
     (make_request example_cfg example_clock 0 ''g1'' (PStr ''c1'') (PStr ''u1'') 1)
     initial_state = (ReturnedFalse, initial_state) \<and>
   send_initiative_message example_cfg host_without_conversation example_clock 0 ''g1''
     (PStr ''c1'') (PStr ''u1'') initial_state =
     Inr \<lparr>new_state = after_first_dispatch,
          requested = Some (make_request example_cfg example_clock 0 ''g1'' (PStr ''c1'')
                              (PStr ''u1'') 1),
          flushed = Some (save_data_to_storage after_first_dispatch)\<rparr> \<and>
   count_of initial_state ''g1'' = 0 \<and>
   count_of after_first_dispatch ''g1'' = 1 \<and>
   ''g1'' \<notin> groups_received_initiative initial_state \<and>
   ''g1'' \<in> groups_received_initiative after_first_dispatch \<and>
   map_of (last_initiative_types initial_state) ''g1'' = None \<and>
   map_of (last_initiative_types after_first_dispatch) ''g1'' =
     Some [(''count'', PInt 1), (''time_period'', PStr ''afternoon''),
           (''timestamp'', PDatetime afternoon)] \<and>
   map_of (group_records initial_state) ''g1'' = None \<and>
   map_of (group_records after_first_dispatch) ''g1'' =
     Some (activity_record afternoon (PStr ''c1'') (PStr ''u1''))"
  by (simp add: generate_result host_without_conversation_def any_host_first_dispatch
        after_first_dispatch_count after_first_dispatch_facts)
     (simp add: initial_state_def count_of_def)

text \<open>
  Claim C9, as stated, fails: the guard rejects an invocation only when the count is
  already at the maximum. After a first successful dispatch (count 1 of at most 3) the
  same invocation run again hands a second request to the message manager and commits
  the count 2.
\<close>

theorem rerun_below_maximum_sends_again:
  "send_initiative_message example_cfg host_ok example_clock 0 ''g1'' (PStr ''c1'') (PStr ''u1'')
     initial_state =
     Inr \<lparr>new_state = after_first_dispatch,
          requested = Some (make_request example_cfg example_clock 0 ''g1'' (PStr ''c1'')
                              (PStr ''u1'') 1),
          flushed = Some (save_data_to_storage after_first_dispatch)\<rparr> \<and>
   send_initiative_message example_cfg host_ok example_clock 0 ''g1'' (PStr ''c1'') (PStr ''u1'')
     after_first_dispatch =
     Inr \<lparr>new_state = after_second_dispatch,
          requested = Some (make_request example_cfg example_clock 0 ''g1'' (PStr ''c1'')
                              (PStr ''u1'') 2),
          flushed = Some (save_data_to_storage after_second_dispatch)\<rparr> \<and>
   count_of after_first_dispatch ''g1'' = 1 \<and>
   count_of after_second_dispatch ''g1'' = 2 \<and>
   after_second_dispatch \<noteq> after_first_dispatch"
proof -
  have c2: "count_of after_second_dispatch ''g1'' = 2"
    by (simp add: after_second_dispatch_def commit_dispatch_fields)
  have "after_second_dispatch \<noteq> after_first_dispatch"
    using c2 after_first_dispatch_count by auto
  then show ?thesis
    by (simp add: any_host_first_dispatch second_dispatch after_first_dispatch_count c2)
qed

lemma send_initiative_message_requested:
  assumes "send_initiative_message cfg env clock rnd g c u s = Inr r"
    and "requested r \<noteq> None"
  shows "\<exists>n. current_count_of s g = Inr n \<and> n + 1 \<le> max_consecutive_messages cfg \<and>
             new_state r =
               commit_dispatch cfg clock (n + 1) (time_period_of (hour (clock_hour clock))) g c u s"
proof (cases "whitelist_enabled cfg \<and> g \<notin> whitelist_groups cfg")
  case True
  with assms show ?thesis by (auto simp: send_initiative_message_def)
next
  case wl: False
  show ?thesis
  proof (cases "current_count_of s g")
    case (Inl e)
    with assms wl show ?thesis by (simp add: send_initiative_message_def)
  next
    case (Inr n)
    show ?thesis
    proof (cases "n + 1 > max_consecutive_messages cfg")
      case True
      with assms show ?thesis
        unfolding send_initiative_message_aborts[OF Inr True] by auto
    next
      case False
      then have le: "n + 1 \<le> max_consecutive_messages cfg" by simp
      from assms(1) show ?thesis
        unfolding send_initiative_message_sends[OF wl Inr le] using Inr le by auto
    qed
  qed
qed

text \<open>
  Claim C9, amended. After a dispatch that went through and brought the group's count to
  \<open>max_consecutive_messages\<close>, running the dispatcher again for the same group,
  conversation and origin changes nothing: the state is the same, no request is made and
  nothing is written.
\<close>

theorem rerun_at_maximum_is_noop:
  assumes "send_initiative_message cfg env clock rnd g c u s = Inr r"
    and "requested r \<noteq> None"
    and "count_of (new_state r) g = max_consecutive_messages cfg"
  shows "send_initiative_message cfg env' clock' rnd' g c u (new_state r) =
           Inr \<lparr>new_state = new_state r, requested = None, flushed = None\<rparr>"
proof -
  obtain n where n: "n + 1 \<le> max_consecutive_messages cfg"
    and st: "new_state r =
               commit_dispatch cfg clock (n + 1) (time_period_of (hour (clock_hour clock))) g c u s"
    using send_initiative_message_requested[OF assms(1,2)] by blast
  have cnt: "n + 1 = max_consecutive_messages cfg"
    using assms(3) by (simp add: st commit_dispatch_fields)
  have cur: "current_count_of (new_state r) g = Inr (n + 1)"
    by (simp add: current_count_of_def st commit_dispatch_fields)
  have over: "(n + 1) + 1 > max_consecutive_messages cfg"
    using cnt by simp
  show ?thesis
    by (rule send_initiative_message_aborts[OF cur over])
qed

text \<open>The theorem with a maximum of one message.\<close>

theorem rerun_at_maximum_is_noop_witness:
  "send_initiative_message terminal_cfg host_ok example_clock 0 ''g1'' (PStr ''c1'') (PStr ''u1'')
     initial_state =
     Inr \<lparr>new_state = terminal_state,
          requested = Some (make_request terminal_cfg example_clock 0 ''g1'' (PStr ''c1'')
                              (PStr ''u1'') 1),
          flushed = Some (save_data_to_storage terminal_state)\<rparr> \<and>
   count_of terminal_state ''g1'' = max_consecutive_messages terminal_cfg \<and>
   send_initiative_message terminal_cfg host_ok example_clock 0 ''g1'' (PStr ''c1'') (PStr ''u1'')
     terminal_state =
     Inr \<lparr>new_state = terminal_state, requested = None, flushed = None\<rparr>"
proof -
  let ?r = "\<lparr>new_state = terminal_state,
          requested = Some (make_request terminal_cfg example_clock 0 ''g1'' (PStr ''c1'')
                              (PStr ''u1'') 1),
          flushed = Some (save_data_to_storage terminal_state)\<rparr>"
  have a: "send_initiative_message terminal_cfg host_ok example_clock 0 ''g1'' (PStr ''c1'')
             (PStr ''u1'') initial_state = Inr ?r"
    by (rule terminal_dispatch)
  have b: "requested ?r \<noteq> None" by simp
  have c: "count_of (new_state ?r) ''g1'' = max_consecutive_messages terminal_cfg"
    by (simp add: terminal_state_count)
  from rerun_at_maximum_is_noop[OF a b c, of host_ok example_clock 0] a terminal_state_count
  show ?thesis by simp
qed

section \<open>The scanner\<close>


lemma check_group_eligible:
  assumes "eligible cfg now s g r c u"
  shows "check_group cfg now sched g r s =
           (if sched (make_task cfg now g c u)
            then Inr (s\<lparr>group_records := AList.delete g (group_records s)\<rparr>,
                      Some (make_task cfg now g c u))
            else Inl SchedulerError)"
  using assms unfolding eligible_def check_group_def Let_def by auto

lemma check_group_other:
  assumes "check_group cfg now sched g' r s = Inr (s', t)"
  shows "count_of s' g = count_of s g"
    and "g' \<noteq> g \<Longrightarrow> map_of (group_records s') g = map_of (group_records s) g"
    and "map_of (group_records s) g = None \<Longrightarrow> map_of (group_records s') g = None"
    and "t = Some x \<Longrightarrow> task_group_id x = g'"
  using check_group_outcome[where cfg=cfg and now=now and sched=sched and g=g' and r=r and s=s] assms
  by (auto simp: count_of_def delete_conv' make_task_def)







lemma scan_records_keeps_submitted:
  "set ts \<subseteq> set (submitted (scan_records cfg now sched recs s ts))"
proof (induction recs arbitrary: s ts)
  case Nil
  show ?case by simp
next
  case (Cons p recs)
  obtain g' r where p: "p = (g', r)" by (cases p)
  show ?case
  proof (cases "check_group cfg now sched g' r s")
    case (Inl e)
    then show ?thesis by (simp add: p)
  next
    case (Inr q)
    obtain s' t where q: "q = (s', t)" by (cases q)
    show ?thesis
    proof (cases t)
      case None
      with Cons.IH[of ts s'] show ?thesis by (simp add: p Inr q)
    next
      case (Some x)
      with Cons.IH[of "ts @ [x]" s'] show ?thesis by (simp add: p Inr q)
    qed
  qed
qed

lemma scan_records_stays_removed:
  assumes "map_of (group_records s) g = None"
  shows "map_of (group_records (tick_state (scan_records cfg now sched recs s ts))) g = None"
  using assms
proof (induction recs arbitrary: s ts)
  case Nil
  then show ?case by simp
next
  case (Cons p recs)
  obtain g' r where p: "p = (g', r)" by (cases p)
  show ?case
  proof (cases "check_group cfg now sched g' r s")
    case (Inl e)
    then show ?thesis using Cons.prems by (simp add: p)
  next
    case (Inr q)
    obtain s' t where q: "q = (s', t)" by (cases q)
    from Inr q have cg: "check_group cfg now sched g' r s = Inr (s', t)" by simp
    have "map_of (group_records s') g = None"
      using check_group_other(3)[OF cg Cons.prems] .
    from Cons.IH[OF this] show ?thesis by (cases t) (simp_all add: p cg)
  qed
qed

lemma eligible_cong:
  "consecutive_message_count s' = consecutive_message_count s \<Longrightarrow>
   eligible cfg now s' g r c u = eligible cfg now s g r c u"
  by (simp add: eligible_def count_of_def)

lemma scan_records_eligible:
  assumes "(g, r) \<in> set recs"
    and "eligible cfg now s g r c u"
    and "raised (scan_records cfg now sched recs s ts) = None"
  shows "make_task cfg now g c u \<in> set (submitted (scan_records cfg now sched recs s ts)) \<and>
         map_of (group_records (tick_state (scan_records cfg now sched recs s ts))) g = None"
  using assms
proof (induction recs arbitrary: s ts)
  case Nil
  then show ?case by simp
next
  case (Cons p recs)
  obtain g' r' where p: "p = (g', r')" by (cases p)
  show ?case
  proof (cases "check_group cfg now sched g' r' s")
    case (Inl e)
    with Cons.prems(3) show ?thesis by (simp add: p)
  next
    case (Inr q)
    obtain s' t where q: "q = (s', t)" by (cases q)
    from Inr q have cg: "check_group cfg now sched g' r' s = Inr (s', t)" by simp
    let ?ts' = "case t of None \<Rightarrow> ts | Some x \<Rightarrow> ts @ [x]"
    have step: "scan_records cfg now sched (p # recs) s ts = scan_records cfg now sched recs s' ?ts'"
      by (cases t) (simp_all add: p cg)
    show ?thesis
    proof (cases "(g', r') = (g, r)")
      case True
      then have same: "g' = g" "r' = r" by simp_all
      have cge: "check_group cfg now sched g r s =
           (if sched (make_task cfg now g c u)
            then Inr (s\<lparr>group_records := AList.delete g (group_records s)\<rparr>,
                      Some (make_task cfg now g c u))
            else Inl SchedulerError)"
        by (rule check_group_eligible[OF Cons.prems(2)])
      have ok: "sched (make_task cfg now g c u)"
      proof (rule ccontr)
        assume "\<not> sched (make_task cfg now g c u)"
        with cge cg same show False by simp
      qed
      from cge ok cg same
      have t: "t = Some (make_task cfg now g c u)"
        and s': "s' = s\<lparr>group_records := AList.delete g (group_records s)\<rparr>"
        by simp_all
      have "make_task cfg now g c u \<in> set ?ts'" by (simp add: t)
      then have "make_task cfg now g c u \<in> set (submitted (scan_records cfg now sched recs s' ?ts'))"
        using scan_records_keeps_submitted by blast
      moreover have "map_of (group_records s') g = None"
        by (simp add: s' delete_conv')
      then have "map_of (group_records (tick_state (scan_records cfg now sched recs s' ?ts'))) g = None"
        by (rule scan_records_stays_removed)
      ultimately show ?thesis unfolding step by simp
    next
      case False
      have mem: "(g, r) \<in> set recs"
        using False Cons.prems(1) by (auto simp: p)
      have "consecutive_message_count s' = consecutive_message_count s"
        by (rule check_group_fields(1)[OF cg])
      from eligible_cong[OF this, of cfg now g r c u] Cons.prems(2)
      have el: "eligible cfg now s' g r c u" by simp
      from Cons.prems(3) have "raised (scan_records cfg now sched recs s' ?ts') = None"
        unfolding step .
      from Cons.IH[OF mem el this] show ?thesis unfolding step .
    qed
  qed
qed

lemma int_div_60_bounds:
  assumes "0 \<le> x"
  shows "0 \<le> int_div_60 x" "60 * int_div_60 x \<le> x" "x < 60 * (int_div_60 x + 1)"
  using assms by (simp_all add: int_div_60_def)

text \<open>
  Claim C5, amended. In a tick inside the activity window that runs through without an
  exception, every eligible group of \<open>group_records\<close> gets a task that carries its id, its
  conversation id and its origin, asks for a random delay, and bounds the delay by 0 and
  by \<^verbatim>\<open>int(max_response_delay_seconds / 60)\<close>, the setting in whole minutes; the group's
  record is removed. For a setting that is not negative the bound in minutes is not
  above the setting and less than a minute below it.
\<close>

theorem eligible_group_is_scheduled:
  assumes "\<not> (time_limit_enabled cfg \<and> \<not> in_activity_window cfg (hour (hour_reading inp)))"
    and "map_of (group_records s) g = Some r"
    and "eligible cfg (now_reading inp) s g r c u"
    and "raised (scanner_tick cfg inp s) = None"
  shows "\<lparr>task_group_id = g, task_scan_time = now_reading inp, random_delay = True,
           min_delay = 0, max_delay = int_div_60 (max_response_delay_seconds cfg),
           task_conversation_id = c, task_unified_msg_origin = u\<rparr>
           \<in> set (submitted (scanner_tick cfg inp s)) \<and>
         map_of (group_records (tick_state (scanner_tick cfg inp s))) g = None \<and>
         (0 \<le> max_response_delay_seconds cfg \<longrightarrow>
            0 \<le> int_div_60 (max_response_delay_seconds cfg) \<and>
            60 * int_div_60 (max_response_delay_seconds cfg) \<le> max_response_delay_seconds cfg \<and>
            max_response_delay_seconds cfg < 60 * (int_div_60 (max_response_delay_seconds cfg) + 1))"
proof -
  have mem: "(g, r) \<in> set (group_records s)"
    using assms(2) by (rule map_of_SomeD)
  have tick: "scanner_tick cfg inp s =
          scan_records cfg (now_reading inp) (schedule_task_ok inp) (group_records s) s []"
    using assms(1) by (auto simp: scanner_tick_def)
  from assms(4) have "raised (scan_records cfg (now_reading inp) (schedule_task_ok inp)
                        (group_records s) s []) = None"
    unfolding tick .
  from scan_records_eligible[OF mem assms(3) this]
  have a: "make_task cfg (now_reading inp) g c u \<in> set (submitted (scanner_tick cfg inp s))"
    and b: "map_of (group_records (tick_state (scanner_tick cfg inp s))) g = None"
    unfolding tick by simp_all
  have c: "make_task cfg (now_reading inp) g c u =
             \<lparr>task_group_id = g, task_scan_time = now_reading inp, random_delay = True,
              min_delay = 0, max_delay = int_div_60 (max_response_delay_seconds cfg),
              task_conversation_id = c, task_unified_msg_origin = u\<rparr>"
    by (simp add: make_task_def)
  show ?thesis
    using a b int_div_60_bounds[of "max_response_delay_seconds cfg"] unfolding c by blast
qed

lemma silent_group_eligible:
  "eligible (example_cfg\<lparr>max_response_delay_seconds := d\<rparr>) afternoon silent_group_state ''g1''
     (activity_record forenoon (PStr ''c1'') (PStr ''u1'')) (PStr ''c1'') (PStr ''u1'')"
proof -
  have "inactive_at_least afternoon forenoon 7200"
    by (simp add: inactive_at_least_def to_microseconds_def toordinal_def afternoon_def
          forenoon_def)
  then show ?thesis
    by (simp add: eligible_def example_cfg_def silent_group_state_def initial_state_def
          count_of_def activity_record_def)
qed

lemma afternoon_in_window:
  "in_activity_window (example_cfg\<lparr>max_response_delay_seconds := d\<rparr>) (hour afternoon)"
  by (simp add: in_activity_window_def example_cfg_def afternoon_def)

lemma silent_group_tick:
  "scanner_tick (example_cfg\<lparr>max_response_delay_seconds := d\<rparr>)
     \<lparr>hour_reading = afternoon, now_reading = afternoon, schedule_task_ok = sched\<rparr>
     silent_group_state =
   (if sched (make_task (example_cfg\<lparr>max_response_delay_seconds := d\<rparr>) afternoon ''g1''
                (PStr ''c1'') (PStr ''u1''))
    then \<lparr>tick_state = silent_group_state\<lparr>group_records := []\<rparr>,
          submitted = [make_task (example_cfg\<lparr>max_response_delay_seconds := d\<rparr>) afternoon
                         ''g1'' (PStr ''c1'') (PStr ''u1'')],
          raised = None\<rparr>
    else \<lparr>tick_state = silent_group_state, submitted = [], raised = Some SchedulerError\<rparr>)"
proof -
  have recs: "group_records silent_group_state =
                [(''g1'', activity_record forenoon (PStr ''c1'') (PStr ''u1''))]"
    by (simp add: silent_group_state_def)
  show ?thesis
    unfolding scanner_tick_def
    by (simp add: afternoon_in_window recs check_group_eligible[OF silent_group_eligible])
qed

lemma example_cfg_delay: "example_cfg\<lparr>max_response_delay_seconds := 3600\<rparr> = example_cfg"
  by (simp add: example_cfg_def)

text \<open>The theorem on the silent group, with the default setting of 3600 seconds.\<close>

theorem eligible_group_is_scheduled_witness:
  "\<not> (time_limit_enabled example_cfg \<and>
       \<not> in_activity_window example_cfg (hour (hour_reading afternoon_tick))) \<and>
   map_of (group_records silent_group_state) ''g1'' =
     Some (activity_record forenoon (PStr ''c1'') (PStr ''u1'')) \<and>
   eligible example_cfg (now_reading afternoon_tick) silent_group_state ''g1''
     (activity_record forenoon (PStr ''c1'') (PStr ''u1'')) (PStr ''c1'') (PStr ''u1'') \<and>
   raised (scanner_tick example_cfg afternoon_tick silent_group_state) = None \<and>
   0 \<le> max_response_delay_seconds example_cfg \<and>
   \<lparr>task_group_id = ''g1'', task_scan_time = afternoon, random_delay = True,
     min_delay = 0, max_delay = 60,
     task_conversation_id = PStr ''c1'', task_unified_msg_origin = PStr ''u1''\<rparr>
     \<in> set (submitted (scanner_tick example_cfg afternoon_tick silent_group_state)) \<and>
   map_of (group_records (tick_state (scanner_tick example_cfg afternoon_tick
                                        silent_group_state))) ''g1'' = None"
proof -
  have h1: "\<not> (time_limit_enabled example_cfg \<and>
       \<not> in_activity_window example_cfg (hour (hour_reading afternoon_tick)))"
    using afternoon_in_window[of 3600] by (simp add: example_cfg_delay afternoon_tick_def)
  have h2: "map_of (group_records silent_group_state) ''g1'' =
     Some (activity_record forenoon (PStr ''c1'') (PStr ''u1''))"
    by (simp add: silent_group_state_def)
  have h3: "eligible example_cfg (now_reading afternoon_tick) silent_group_state ''g1''
     (activity_record forenoon (PStr ''c1'') (PStr ''u1'')) (PStr ''c1'') (PStr ''u1'')"
    using silent_group_eligible[of 3600] by (simp add: example_cfg_delay afternoon_tick_def)
  have h4: "raised (scanner_tick example_cfg afternoon_tick silent_group_state) = None"
    using silent_group_tick[of 3600 "\<lambda>t. True"]
    by (simp add: example_cfg_delay afternoon_tick_def)
  have h5: "0 \<le> max_response_delay_seconds example_cfg"
    by (simp add: example_cfg_def)
  have d: "int_div_60 (max_response_delay_seconds example_cfg) = 60"
    by (simp add: int_div_60_def example_cfg_def)
  from eligible_group_is_scheduled[OF h1 h2 h3 h4] h1 h2 h3 h4 h5
  show ?thesis by (simp add: d afternoon_tick_def)
qed

text \<open>
  Claim C5, as stated, fails: the upper bound the scanner hands over is not
  \<open>max_response_delay_seconds\<close>. With a setting of 90 seconds the task's bound is 1: one
  minute if the task manager counts minutes, so no delay between 60 and 90 seconds is
  ever drawn.
\<close>

theorem delay_bound_is_in_minutes:
  "max_response_delay_seconds short_delay_cfg = 90 \<and>
   submitted (scanner_tick short_delay_cfg afternoon_tick silent_group_state) =
     [\<lparr>task_group_id = ''g1'', task_scan_time = afternoon, random_delay = True,
       min_delay = 0, max_delay = 1,
       task_conversation_id = PStr ''c1'', task_unified_msg_origin = PStr ''u1''\<rparr>]"
  using silent_group_tick[of 90 "\<lambda>t. True"]
  by (simp add: short_delay_cfg_def afternoon_tick_def make_task_def int_div_60_def)

text \<open>
  Claim C4. The loop should survive an exception raised while the groups are evaluated.
  It does not: the \<^verbatim>\<open>try\<close> encloses the \<^verbatim>\<open>while True\<close>, so the first exception ends the
  coroutine. When the task manager fails once, the loop is over, the tick after it never
  runs, and the silent group is never handed over, although that tick alone would have
  handed it over. A record whose timestamp is a number (the loader converts strings only)
  ends the loop in the same way at the first tick.
\<close>

theorem scanner_loop_ends_on_error:
  "check_inactive_conversations_loop example_cfg [Tick failing_tick, Tick afternoon_tick]
     silent_group_state [] =
     \<lparr>loop_state = silent_group_state, loop_submitted = [],
      status = ExitedOnError SchedulerError\<rparr> \<and>
   check_inactive_conversations_loop example_cfg [Tick afternoon_tick] silent_group_state [] =
     \<lparr>loop_state = silent_group_state\<lparr>group_records := []\<rparr>,
      loop_submitted = [make_task example_cfg afternoon ''g1'' (PStr ''c1'') (PStr ''u1'')],
      status = Sleeping\<rparr> \<and>
   check_inactive_conversations_loop example_cfg [Tick afternoon_tick, Tick afternoon_tick]
     numeric_timestamp_state [] =
     \<lparr>loop_state = numeric_timestamp_state, loop_submitted = [],
      status = ExitedOnError TypeError\<rparr>"
proof -
  have a: "scanner_tick example_cfg failing_tick silent_group_state =
             \<lparr>tick_state = silent_group_state, submitted = [], raised = Some SchedulerError\<rparr>"
    using silent_group_tick[of 3600 "\<lambda>t. False"]
    by (simp add: example_cfg_delay failing_tick_def)
  have b: "scanner_tick example_cfg afternoon_tick silent_group_state =
             \<lparr>tick_state = silent_group_state\<lparr>group_records := []\<rparr>,
              submitted = [make_task example_cfg afternoon ''g1'' (PStr ''c1'') (PStr ''u1'')],
              raised = None\<rparr>"
    using silent_group_tick[of 3600 "\<lambda>t. True"]
    by (simp add: example_cfg_delay afternoon_tick_def)
  have w: "in_activity_window example_cfg (hour afternoon)"
    using afternoon_in_window[of 3600] by (simp add: example_cfg_delay)
  have recs: "group_records numeric_timestamp_state =
       [(''g1'', [(''timestamp'', PInt 1714554000), (''conversation_id'', PStr ''c1''),
                  (''unified_msg_origin'', PStr ''u1'')])]"
    by (simp add: numeric_timestamp_state_def)
  have cg: "check_group example_cfg afternoon (\<lambda>t. True) ''g1''
              [(''timestamp'', PInt 1714554000), (''conversation_id'', PStr ''c1''),
               (''unified_msg_origin'', PStr ''u1'')] numeric_timestamp_state = Inl TypeError"
    by (simp add: check_group_def example_cfg_def numeric_timestamp_state_def
          initial_state_def count_of_def)
  have c: "scanner_tick example_cfg afternoon_tick numeric_timestamp_state =
             \<lparr>tick_state = numeric_timestamp_state, submitted = [], raised = Some TypeError\<rparr>"
    unfolding scanner_tick_def
    by (simp add: w afternoon_tick_def recs cg)
  show ?thesis by (simp add: a b c Let_def)
qed

section \<open>Saving and loading\<close>

declare str_nat.simps [simp del]

lemma digit_val_digit_char: "n < 10 \<Longrightarrow> digit_val (digit_char n) = Some n"
  by (simp add: digit_val_def digit_char_def Let_def)

lemma parse_digits_from_append:
  "parse_digits_from a (xs @ ys) =
     Option.bind (parse_digits_from a xs) (\<lambda>b. parse_digits_from b ys)"
  by (induction xs arbitrary: a) (simp_all split: option.splits)

lemma parse_digits_from_zeros: "parse_digits_from 0 (replicate k (CHR ''0'')) = Some 0"
  by (induction k) (simp_all add: digit_val_def)

lemma parse_digits_from_str_nat: "parse_digits_from 0 (str_nat n) = Some n"
proof (induction n rule: str_nat.induct)
  case (1 n)
  show ?case
  proof (cases "n < 10")
    case True
    then show ?thesis
      by (subst str_nat.simps) (simp add: digit_val_digit_char)
  next
    case False
    have "n mod 10 < 10" by simp
    then have dv: "digit_val (digit_char (n mod 10)) = Some (n mod 10)"
      by (rule digit_val_digit_char)
    from False "1.IH" have ih: "parse_digits_from 0 (str_nat (n div 10)) = Some (n div 10)"
      by simp
    show ?thesis
      by (subst str_nat.simps) (simp add: False parse_digits_from_append ih dv)
  qed
qed

lemma str_nat_not_empty: "str_nat n \<noteq> []"
  by (subst str_nat.simps) simp

lemma length_str_nat: "n < 10 ^ k \<Longrightarrow> 0 < k \<Longrightarrow> length (str_nat n) \<le> k"
proof (induction n arbitrary: k rule: str_nat.induct)
  case (1 n)
  show ?case
  proof (cases "n < 10")
    case True
    with "1.prems" show ?thesis by (subst str_nat.simps) simp
  next
    case False
    obtain j where k: "k = Suc j" using "1.prems"(2) by (cases k) auto
    have "0 < j"
    proof (rule ccontr)
      assume "\<not> 0 < j"
      with k "1.prems"(1) False show False by simp
    qed
    moreover have "n div 10 < 10 ^ j"
      using "1.prems"(1) k by (simp add: less_mult_imp_div_less mult.commute)
    ultimately have "length (str_nat (n div 10)) \<le> j"
      using "1.IH"[OF False] by simp
    then show ?thesis
      by (subst str_nat.simps) (simp add: False k)
  qed
qed

lemma length_zfill: "n < 10 ^ k \<Longrightarrow> 0 < k \<Longrightarrow> length (zfill k n) = k"
  using length_str_nat[of n k] by (simp add: zfill_def)

lemma parse_digits_zfill: "parse_digits (zfill k n) = Some n"
  by (simp add: parse_digits_def zfill_def str_nat_not_empty parse_digits_from_append
        parse_digits_from_zeros parse_digits_from_str_nat)

lemma length_2E: "length xs = 2 \<Longrightarrow> \<exists>a b. xs = [a, b]"
  by (auto simp: numeral_eq_Suc length_Suc_conv)

lemma length_4E: "length xs = 4 \<Longrightarrow> \<exists>a b c d. xs = [a, b, c, d]"
  by (auto simp: numeral_eq_Suc length_Suc_conv)

lemma length_6E: "length xs = 6 \<Longrightarrow> \<exists>a b c d e f. xs = [a, b, c, d, e, f]"
  by (auto simp: numeral_eq_Suc length_Suc_conv)

lemma zfill_2: "n < 100 \<Longrightarrow> \<exists>a b. zfill 2 n = [a, b]"
  by (rule length_2E) (simp add: length_zfill)

lemma zfill_4: "n < 10000 \<Longrightarrow> \<exists>a b c d. zfill 4 n = [a, b, c, d]"
  by (rule length_4E) (simp add: length_zfill)

lemma zfill_6: "n < 1000000 \<Longrightarrow> \<exists>a b c d e f. zfill 6 n = [a, b, c, d, e, f]"
  by (rule length_6E) (simp add: length_zfill)

lemma datetime_fields:
  "\<lparr>year = year d, month = month d, day = day d, hour = hour d, minute = minute d,
    second = second d, microsecond = microsecond d\<rparr> = d"
  by simp

lemma fromisoformat_isoformat:
  assumes "valid_datetime d"
  shows "fromisoformat (isoformat d) = Some d"
proof -
  from assms have bounds: "year d < 10000" "month d < 100" "day d < 100" "hour d < 100"
    "minute d < 100" "second d < 100" "microsecond d < 1000000"
    by (auto simp: valid_datetime_def days_in_month_def split: if_splits)
  obtain y1 y2 y3 y4 where Y: "zfill 4 (year d) = [y1, y2, y3, y4]"
    using zfill_4[OF bounds(1)] by blast
  obtain m1 m2 where M: "zfill 2 (month d) = [m1, m2]"
    using zfill_2[OF bounds(2)] by blast
  obtain d1 d2 where D: "zfill 2 (day d) = [d1, d2]"
    using zfill_2[OF bounds(3)] by blast
  obtain h1 h2 where H: "zfill 2 (hour d) = [h1, h2]"
    using zfill_2[OF bounds(4)] by blast
  obtain i1 i2 where I: "zfill 2 (minute d) = [i1, i2]"
    using zfill_2[OF bounds(5)] by blast
  obtain s1 s2 where S: "zfill 2 (second d) = [s1, s2]"
    using zfill_2[OF bounds(6)] by blast
  obtain f1 f2 f3 f4 f5 f6 where F: "zfill 6 (microsecond d) = [f1, f2, f3, f4, f5, f6]"
    using zfill_6[OF bounds(7)] by blast
  have pY: "parse_digits [y1, y2, y3, y4] = Some (year d)"
    using parse_digits_zfill[of 4 "year d"] by (simp add: Y)
  have pM: "parse_digits [m1, m2] = Some (month d)"
    using parse_digits_zfill[of 2 "month d"] by (simp add: M)
  have pD: "parse_digits [d1, d2] = Some (day d)"
    using parse_digits_zfill[of 2 "day d"] by (simp add: D)
  have pH: "parse_digits [h1, h2] = Some (hour d)"
    using parse_digits_zfill[of 2 "hour d"] by (simp add: H)
  have pI: "parse_digits [i1, i2] = Some (minute d)"
    using parse_digits_zfill[of 2 "minute d"] by (simp add: I)
  have pS: "parse_digits [s1, s2] = Some (second d)"
    using parse_digits_zfill[of 2 "second d"] by (simp add: S)
  have pF: "parse_digits [f1, f2, f3, f4, f5, f6] = Some (microsecond d)"
    using parse_digits_zfill[of 6 "microsecond d"] by (simp add: F)
  have date: "parse_isoformat_date [y1, y2, y3, y4, CHR ''-'', m1, m2, CHR ''-'', d1, d2] =
                Some (year d, month d, day d)"
    by (simp add: parse_isoformat_date_def pY pM pD)
  have md: "make_datetime (year d, month d, day d)
              (hour d, minute d, second d, microsecond d) = Some d"
    using assms by (simp add: Let_def datetime_fields)
  show ?thesis
  proof (cases "microsecond d = 0")
    case True
    have iso: "isoformat d =
                 [y1, y2, y3, y4, CHR ''-'', m1, m2, CHR ''-'', d1, d2, CHR ''T'',
                  h1, h2, CHR '':'', i1, i2, CHR '':'', s1, s2]"
      by (simp add: isoformat_def Y M D H I S True)
    have time: "parse_isoformat_time [h1, h2, CHR '':'', i1, i2, CHR '':'', s1, s2] =
                  Some (hour d, minute d, second d, 0)"
      by (simp add: parse_isoformat_time_def parse_hh_def parse_mm_def parse_ss_def pH pI pS)
    have "make_datetime (year d, month d, day d) (hour d, minute d, second d, 0) = Some d"
      using md by (simp only: True)
    then show ?thesis
      by (simp add: fromisoformat_def iso date time)
  next
    case False
    have iso: "isoformat d =
                 [y1, y2, y3, y4, CHR ''-'', m1, m2, CHR ''-'', d1, d2, CHR ''T'',
                  h1, h2, CHR '':'', i1, i2, CHR '':'', s1, s2, CHR ''.'',
                  f1, f2, f3, f4, f5, f6]"
      by (simp add: isoformat_def Y M D H I S F False)
    have time: "parse_isoformat_time
                  [h1, h2, CHR '':'', i1, i2, CHR '':'', s1, s2, CHR ''.'',
                   f1, f2, f3, f4, f5, f6] =
                  Some (hour d, minute d, second d, microsecond d)"
      by (simp add: parse_isoformat_time_def parse_hh_def parse_mm_def parse_ss_def
            parse_ff_def pH pI pS pF)
    from md show ?thesis
      by (simp add: fromisoformat_def iso date time)
  qed
qed

lemma prepare_value_unchanged:
  "well_formed_value key v \<Longrightarrow> key \<noteq> ''timestamp'' \<Longrightarrow> prepare_value v = v"
  by (cases v) (simp_all add: well_formed_value_def)

lemma prepare_fields_unchanged:
  "list_all (\<lambda>(key, v). prepare_value v = v) r \<Longrightarrow> prepare_fields r = r"
  by (induction r) (auto simp: prepare_fields_def)

lemma map_of_prepare_fields:
  "map_of (prepare_fields r) key = map_option prepare_value (map_of r key)"
  by (induction r) (auto simp: prepare_fields_def)

lemma update_prepare_fields:
  assumes "distinct (map fst r)"
    and "list_all (\<lambda>(key, v). key \<noteq> ''timestamp'' \<longrightarrow> prepare_value v = v) r"
    and "map_of r ''timestamp'' = Some v"
  shows "AList.update ''timestamp'' v (prepare_fields r) = r"
  using assms
proof (induction r)
  case Nil
  then show ?case by simp
next
  case (Cons p r)
  obtain key x where p: "p = (key, x)" by (cases p)
  show ?case
  proof (cases "key = ''timestamp''")
    case True
    with Cons.prems(3) have x: "x = v" by (simp add: p)
    have "list_all (\<lambda>(key, v). prepare_value v = v) r"
      using Cons.prems(1,2) True
      by (force simp: p list_all_iff)
    then have "prepare_fields r = r" by (rule prepare_fields_unchanged)
    then show ?thesis
      using True x by (simp add: p prepare_fields_def)
  next
    case False
    with Cons.prems(2) have px: "prepare_value x = x" by (simp add: p)
    have "AList.update ''timestamp'' v (prepare_fields r) = r"
      using Cons.IH Cons.prems False by (simp add: p)
    then show ?thesis
      using False px by (simp add: p prepare_fields_def)
  qed
qed

lemma convert_prepared_record:
  assumes "well_formed_record r"
  shows "convert_timestamp now (prepare_fields r) = r"
proof -
  from assms have dist: "distinct (map fst r)"
    and wf: "list_all (\<lambda>(key, v). well_formed_value key v) r"
    by (simp_all add: well_formed_record_def)
  have others: "list_all (\<lambda>(key, v). key \<noteq> ''timestamp'' \<longrightarrow> prepare_value v = v) r"
    using wf by (auto simp: list_all_iff prepare_value_unchanged)
  show ?thesis
  proof (cases "map_of r ''timestamp''")
    case None
    then have "''timestamp'' \<notin> fst ` set r" by (simp add: map_of_eq_None_iff)
    with others have "list_all (\<lambda>(key, v). prepare_value v = v) r"
      by (force simp: list_all_iff)
    then have "prepare_fields r = r" by (rule prepare_fields_unchanged)
    then show ?thesis
      using None by (simp add: convert_timestamp_def)
  next
    case (Some v)
    then have mem: "(''timestamp'', v) \<in> set r" by (rule map_of_SomeD)
    with wf have wv: "well_formed_value ''timestamp'' v" by (auto simp: list_all_iff)
    have upd: "AList.update ''timestamp'' v (prepare_fields r) = r"
      using dist others Some by (rule update_prepare_fields)
    show ?thesis
    proof (cases v)
      case (PDatetime d)
      with wv have "valid_datetime d" by (simp add: well_formed_value_def)
      then have "fromisoformat (isoformat d) = Some d" by (rule fromisoformat_isoformat)
      then show ?thesis
        using upd Some PDatetime
        by (simp add: convert_timestamp_def map_of_prepare_fields)
    next
      case (PStr str)
      with wv show ?thesis by (simp add: well_formed_value_def)
    next
      case PNone
      then have "AList.update ''timestamp'' v (prepare_fields r) = prepare_fields r"
        using Some by (intro update_triv) (simp add: map_of_prepare_fields)
      with upd Some PNone show ?thesis
        by (simp add: convert_timestamp_def map_of_prepare_fields)
    next
      case (PBool b)
      then have "AList.update ''timestamp'' v (prepare_fields r) = prepare_fields r"
        using Some by (intro update_triv) (simp add: map_of_prepare_fields)
      with upd Some PBool show ?thesis
        by (simp add: convert_timestamp_def map_of_prepare_fields)
    next
      case (PInt n)
      then have "AList.update ''timestamp'' v (prepare_fields r) = prepare_fields r"
        using Some by (intro update_triv) (simp add: map_of_prepare_fields)
      with upd Some PInt show ?thesis
        by (simp add: convert_timestamp_def map_of_prepare_fields)
    qed
  qed
qed

lemma convert_prepared_records:
  "well_formed_records records \<Longrightarrow>
   convert_records now (prepare_records_for_save records) = records"
  by (induction records)
     (auto simp: well_formed_records_def convert_records_def prepare_records_for_save_def
        convert_prepared_record)

text \<open>
  Claim C8. For every state whose records are as the program builds them, saving the
  snapshot and loading it back, over whatever state is in memory at that moment, gives
  the saved state again: the five dictionaries and sets are identical, and so is every
  timestamp with its microseconds, which goes through \<open>isoformat\<close> and
  \<open>fromisoformat\<close>.
\<close>

theorem save_then_load_restores:
  assumes "well_formed_state s"
  shows "load_data_from_storage now (save_data_to_storage s) s0 = s"
proof -
  from assms have fin: "finite (groups_received_initiative s)"
    and r1: "well_formed_records (group_records s)"
    and r2: "well_formed_records (last_initiative_messages s)"
    and r3: "well_formed_records (last_initiative_types s)"
    by (simp_all add: well_formed_state_def)
  have "set (sorted_list_of_set (groups_received_initiative s)) = groups_received_initiative s"
    using fin by simp
  then show ?thesis
    by (simp add: load_data_from_storage_def save_data_to_storage_def set_data_def or_empty_def
          convert_prepared_records[OF r1] convert_prepared_records[OF r2]
          convert_prepared_records[OF r3])
qed

text \<open>The ISO string that stands for a timestamp in the snapshot.\<close>

lemma save_then_load_example:
  "isoformat afternoon = ''2024-05-01T14:00:00.250000''"
  by (simp add: isoformat_def zfill_def afternoon_def str_nat.simps digit_char_def
        char_of_eq_iff)

subsection \<open>Every state of the program has well-formed records\<close>

text \<open>
  The constructor's state is well formed, and the dispatcher, the handler, the scanner
  and the loader keep or make it so, given clock readings that are datetimes and
  conversation ids and origins that are not.
\<close>

lemma well_formed_initial: "well_formed_state initial_state"
  by (simp add: well_formed_state_def well_formed_records_def initial_state_def)

lemma well_formed_records_update:
  "well_formed_records records \<Longrightarrow> well_formed_record r \<Longrightarrow>
   well_formed_records (AList.update g r records)"
  by (induction records) (auto simp: well_formed_records_def)

lemma well_formed_records_delete:
  "well_formed_records records \<Longrightarrow> well_formed_records (AList.delete g records)"
  by (induction records) (auto simp: well_formed_records_def)

lemma well_formed_records_lookup:
  "well_formed_records records \<Longrightarrow> map_of records g = Some r \<Longrightarrow> well_formed_record r"
  by (auto simp: well_formed_records_def list_all_iff dest!: map_of_SomeD)

lemma well_formed_activity_record:
  assumes "valid_datetime now" "json_value c" "json_value u"
  shows "well_formed_record (activity_record now c u)"
  using assms
  by (cases c; cases u)
     (simp_all add: well_formed_record_def activity_record_def well_formed_value_def
        json_value_def)

lemma well_formed_type_info:
  assumes "valid_datetime t"
  shows "well_formed_record
           [(''count'', PInt n), (''time_period'', PStr tp), (''timestamp'', PDatetime t)]"
  using assms by (simp add: well_formed_record_def well_formed_value_def)

lemma well_formed_count_reset:
  assumes "well_formed_record r"
  shows "well_formed_record (AList.update ''count'' (PInt 0) r)"
proof -
  have "list_all (\<lambda>(key, v). well_formed_value key v) r \<Longrightarrow>
        list_all (\<lambda>(key, v). well_formed_value key v) (AList.update ''count'' (PInt 0) r)"
    by (induction r) (auto simp: well_formed_value_def)
  with assms show ?thesis
    by (simp add: well_formed_record_def distinct_update)
qed

lemma well_formed_commit:
  assumes "well_formed_state s"
    and "valid_datetime (clock_type_info clock)" "valid_datetime (clock_now clock)"
    and "json_value c" "json_value u"
  shows "well_formed_state (commit_dispatch cfg clock n tp g c u s)"
  using assms
  by (simp add: well_formed_state_def commit_dispatch_def Let_def well_formed_records_update
        well_formed_activity_record well_formed_type_info)

lemma well_formed_dispatch:
  assumes "well_formed_state s"
    and "valid_datetime (clock_type_info clock)" "valid_datetime (clock_now clock)"
    and "json_value c" "json_value u"
    and "send_initiative_message cfg env clock rnd g c u s = Inr r"
  shows "well_formed_state (new_state r)"
  using send_initiative_message_state[OF assms(6)] assms(1) well_formed_commit[OF assms(1-5)]
  by auto

lemma well_formed_reset:
  assumes "well_formed_state s"
  shows "well_formed_state (reset_count g s)"
proof (cases "map_of (last_initiative_types s) g")
  case None
  with assms show ?thesis
    by (simp add: well_formed_state_def reset_count_def Let_def)
next
  case (Some old_info)
  from assms have "well_formed_records (last_initiative_types s)"
    by (simp add: well_formed_state_def)
  then have "well_formed_record old_info"
    using Some by (rule well_formed_records_lookup)
  then have "well_formed_record (AList.update ''count'' (PInt 0) old_info)"
    by (rule well_formed_count_reset)
  with assms Some show ?thesis
    by (simp add: well_formed_state_def reset_count_def Let_def well_formed_records_update)
qed

lemma well_formed_message:
  assumes "well_formed_state s" and "valid_datetime now" and "json_value cid"
    and "on_group_message (IdLookupReturns cid) now ev s = Inr h"
  shows "well_formed_state (handled_state h)"
proof (cases "ev_group_id ev = [] \<or> str_contains ''[SYS_PROMPT]'' (message_str ev)")
  case True
  from assms(4) have "handled_state h = s"
    unfolding on_group_message_ignored[OF True] by auto
  with assms(1) show ?thesis by simp
next
  case False
  then have g: "ev_group_id ev \<noteq> []" and m: "\<not> str_contains ''[SYS_PROMPT]'' (message_str ev)"
    by simp_all
  have "well_formed_record (activity_record now cid (PStr (ev_unified_msg_origin ev)))"
    using assms(2,3) by (rule well_formed_activity_record) (simp add: json_value_def)
  with assms(1) have wf: "well_formed_state (refreshed cid now ev s)"
    by (simp add: well_formed_state_def refreshed_def well_formed_records_update)
  from assms(4) have "handled_state h = refreshed cid now ev s \<or>
      handled_state h = reset_count (ev_group_id ev) (refreshed cid now ev s)"
    unfolding on_group_message_genuine[OF g m] by (auto split: if_splits)
  with wf well_formed_reset[OF wf] show ?thesis by auto
qed

lemma well_formed_check_group:
  assumes "well_formed_state s" and "check_group cfg now sched g r s = Inr (s', t)"
  shows "well_formed_state s'"
  using check_group_outcome[where cfg=cfg and now=now and sched=sched and g=g and r=r and s=s]
    assms
  by (auto simp: well_formed_state_def well_formed_records_delete)

lemma well_formed_scan_records:
  "well_formed_state s \<Longrightarrow> well_formed_state (tick_state (scan_records cfg now sched recs s ts))"
proof (induction recs arbitrary: s ts)
  case Nil
  then show ?case by simp
next
  case (Cons p recs)
  obtain g r where p: "p = (g, r)" by (cases p)
  show ?case
  proof (cases "check_group cfg now sched g r s")
    case (Inl e)
    with Cons.prems show ?thesis by (simp add: p)
  next
    case (Inr q)
    obtain s' t where q: "q = (s', t)" by (cases q)
    from Inr q have cg: "check_group cfg now sched g r s = Inr (s', t)" by simp
    have "well_formed_state s'" using Cons.prems cg by (rule well_formed_check_group)
    from Cons.IH[OF this] show ?thesis by (cases t) (simp_all add: p cg)
  qed
qed

lemma well_formed_tick:
  "well_formed_state s \<Longrightarrow> well_formed_state (tick_state (scanner_tick cfg inp s))"
  by (simp add: scanner_tick_def well_formed_scan_records)

lemma make_datetime_valid: "make_datetime dc tc = Some d \<Longrightarrow> valid_datetime d"
  by (cases dc; cases tc) (auto simp: Let_def split: if_splits)

lemma fromisoformat_valid: "fromisoformat str = Some d \<Longrightarrow> valid_datetime d"
  by (auto simp: fromisoformat_def Let_def bind_eq_Some_conv make_datetime_valid
      split: if_splits)

lemma well_formed_converted_record:
  assumes "valid_datetime now" "distinct (map fst r)" "list_all (\<lambda>(key, v). json_value v) r"
  shows "well_formed_record (convert_timestamp now r)"
proof -
  have plain: "list_all (\<lambda>(key, v). key \<noteq> ''timestamp'' \<longrightarrow> well_formed_value key v) r"
    using assms(3)
    by (auto simp: list_all_iff well_formed_value_def json_value_def split: pyval.splits)
  show ?thesis
  proof (cases "\<exists>str. map_of r ''timestamp'' = Some (PStr str)")
    case True
    then obtain str where str: "map_of r ''timestamp'' = Some (PStr str)" by blast
    define d where "d = (case fromisoformat str of Some d \<Rightarrow> d | None \<Rightarrow> now)"
    have "valid_datetime d"
      using assms(1) by (auto simp: d_def fromisoformat_valid split: option.splits)
    then have wv: "well_formed_value ''timestamp'' (PDatetime d)"
      by (simp add: well_formed_value_def)
    have "list_all (\<lambda>(key, v). well_formed_value key v)
            (AList.update ''timestamp'' (PDatetime d) r)"
      using assms(2) plain
    proof (induction r)
      case Nil
      show ?case using wv by simp
    next
      case (Cons p r)
      obtain key x where p: "p = (key, x)" by (cases p)
      show ?case
      proof (cases "key = ''timestamp''")
        case True
        with Cons.prems have "''timestamp'' \<notin> fst ` set r" by (simp add: p)
        with Cons.prems(2) have "list_all (\<lambda>(key, v). well_formed_value key v) r"
          by (force simp: list_all_iff)
        with True wv show ?thesis by (simp add: p)
      next
        case False
        with Cons.IH Cons.prems show ?thesis by (simp add: p)
      qed
    qed
    with assms(2) have "well_formed_record (AList.update ''timestamp'' (PDatetime d) r)"
      by (simp add: well_formed_record_def distinct_update)
    then show ?thesis by (simp add: convert_timestamp_def str d_def)
  next
    case False
    have "well_formed_value key v" if "(key, v) \<in> set r" for key v
    proof (cases "key = ''timestamp''")
      case True
      with that assms(2) have "map_of r ''timestamp'' = Some v" by simp
      with False have "\<forall>str. v \<noteq> PStr str" by auto
      moreover from that assms(3) have "json_value v" by (auto simp: list_all_iff)
      ultimately show ?thesis
        by (cases v) (simp_all add: well_formed_value_def json_value_def)
    next
      case False
      with that plain show ?thesis by (auto simp: list_all_iff)
    qed
    then have "well_formed_record r"
      using assms(2) by (auto simp: well_formed_record_def list_all_iff)
    moreover have "convert_timestamp now r = r"
      using False by (auto simp: convert_timestamp_def split: option.splits pyval.splits)
    ultimately show ?thesis by simp
  qed
qed

lemma well_formed_converted_records:
  "valid_datetime now \<Longrightarrow> json_records records \<Longrightarrow>
   well_formed_records (convert_records now records)"
  by (induction records)
     (auto simp: json_records_def well_formed_records_def convert_records_def
        well_formed_converted_record)

lemma well_formed_load:
  assumes "valid_datetime now" "json_document stored"
  shows "well_formed_state (load_data_from_storage now (Json stored) s)"
  using assms
  by (simp add: load_data_from_storage_def set_data_def well_formed_state_def json_document_def
        well_formed_converted_records)

text \<open>
  The theorem on the state after the first dispatch, whose records carry the timestamp
  2024-05-01 14:00:00.250000, loaded over the empty state.
\<close>

theorem save_then_load_restores_witness:
  "well_formed_state after_first_dispatch \<and>
   load_data_from_storage forenoon (save_data_to_storage after_first_dispatch) initial_state =
     after_first_dispatch \<and>
   map_of (group_records after_first_dispatch) ''g1'' =
     Some (activity_record afternoon (PStr ''c1'') (PStr ''u1''))"
proof -
  have v: "valid_datetime afternoon"
    by (simp add: valid_datetime_def afternoon_def days_in_month_def)
  have j: "json_value (PStr ''c1'')" "json_value (PStr ''u1'')"
    by (simp_all add: json_value_def)
  have wf: "well_formed_state after_first_dispatch"
    unfolding after_first_dispatch_def
    by (rule well_formed_commit[OF well_formed_initial])
       (simp_all add: example_clock_def v j)
  from save_then_load_restores[OF wf, of forenoon initial_state] wf
    after_first_dispatch_facts(2)
  show ?thesis by simp
qed

end
